theory Spec2Isabelle
  imports Complex_Main "HOL-Library.AList" "HOL-Library.Sublist"
begin

section \<open>Strings\<close>

text \<open>
  A Python \<open>str\<close> is a sequence of Unicode code points; a code point is a natural
  number, and \<open>len\<close> is \<open>length\<close>.  ASCII literals are written through \<open>str\<close>.
\<close>

type_synonym pystr = "nat list"

definition str :: "string \<Rightarrow> pystr" where
  "str s = map of_char s"

text \<open>
  \<open>str.isspace\<close> for one character: the white-space table of CPython
  (\<open>_PyUnicode_IsWhitespace\<close>), which \<open>strip()\<close> and \<open>split()\<close> use.
\<close>

definition isspace :: "nat \<Rightarrow> bool" where
  "isspace c \<longleftrightarrow>
     (9 \<le> c \<and> c \<le> 13) \<or> (28 \<le> c \<and> c \<le> 32) \<or> c = 133 \<or> c = 160 \<or> c = 5760 \<or>
     (8192 \<le> c \<and> c \<le> 8202) \<or> c = 8232 \<or> c = 8233 \<or> c = 8239 \<or> c = 8287 \<or> c = 12288"

text \<open>\<open>s.strip()\<close>: white space removed at both ends.\<close>

definition py_strip :: "pystr \<Rightarrow> pystr" where
  "py_strip s = rev (dropWhile isspace (rev (dropWhile isspace s)))"

text \<open>
  \<open>s.split()\<close>: the maximal runs of characters that are not white space, in order;
  \<open>w\<close> is the word being read.
\<close>

fun split_acc :: "pystr \<Rightarrow> pystr \<Rightarrow> pystr list" where
  "split_acc w [] = (if w = [] then [] else [w])"
| "split_acc w (c # cs) =
     (if isspace c then (if w = [] then split_acc [] cs else w # split_acc [] cs)
      else split_acc (w @ [c]) cs)"

definition py_split :: "pystr \<Rightarrow> pystr list" where
  "py_split s = split_acc [] s"

text \<open>\<open>" ".join(ws)\<close>.\<close>

fun join_space :: "pystr list \<Rightarrow> pystr" where
  "join_space [] = []"
| "join_space [w] = w"
| "join_space (w # v # ws) = w @ 32 # join_space (v # ws)"

section \<open>Errors\<close>

text \<open>
  \<open>ValidationError\<close> is what pydantic raises for a \<open>ValueError\<close> of a validator or a
  violated \<open>Field\<close> constraint.  The \<open>HTTPException\<close>s of \<open>api.py\<close> are \<open>NotFound\<close>
  (404), \<open>DuplicateName\<close> (409, code \<open>DUPLICATE_NAME\<close>), \<open>InvalidRange\<close> (400,
  \<open>min_precio\<close> above \<open>max_precio\<close>) and \<open>EmptyPatch\<close> (400, no field sent).
  \<open>InvalidOperation\<close> is the \<open>decimal\<close> exception where the code does not catch it.
\<close>

datatype error = ValidationError | NotFound | DuplicateName | InvalidRange | EmptyPatch
  | InvalidOperation

section \<open>The name field\<close>

text \<open>
  \<open>_name_re\<close>: the first character is a letter of \<open>A-Za-z\<close>, one of the twelve accented
  letters, or a digit; the other characters may also be space, hyphen, underscore or
  period.
\<close>

definition name_first :: "nat \<Rightarrow> bool" where
  "name_first c \<longleftrightarrow>
     (65 \<le> c \<and> c \<le> 90) \<or> (97 \<le> c \<and> c \<le> 122) \<or> (48 \<le> c \<and> c \<le> 57) \<or>
     c \<in> {193, 201, 205, 211, 218, 225, 233, 237, 243, 250, 209, 241}"

definition name_rest :: "nat \<Rightarrow> bool" where
  "name_rest c \<longleftrightarrow> name_first c \<or> c = 32 \<or> c = 45 \<or> c = 95 \<or> c = 46"

text \<open>
  \<open>_name_re.match(v)\<close>.  The pattern is anchored by \<open>^\<close> and \<open>$\<close>; without
  \<open>re.MULTILINE\<close>, \<open>$\<close> matches at the end of the string and also just before a
  line feed that ends it.
\<close>

definition name_body :: "pystr \<Rightarrow> bool" where
  "name_body v \<longleftrightarrow>
     (case v of [] \<Rightarrow> False
      | c # cs \<Rightarrow> name_first c \<and> 2 \<le> length cs \<and> length cs \<le> 79 \<and> list_all name_rest cs)"

definition name_re_match :: "pystr \<Rightarrow> bool" where
  "name_re_match v \<longleftrightarrow> name_body v \<or> (v \<noteq> [] \<and> last v = 10 \<and> name_body (butlast v))"

text \<open>The validator \<open>validar_nombre\<close> of \<open>ProductoCreate\<close> (and of \<open>ProductoUpdate\<close>).\<close>

definition validar_nombre :: "pystr \<Rightarrow> error + pystr" where
  "validar_nombre v0 =
     (let v = join_space (py_split (py_strip v0))
      in if \<not> name_re_match v then Inl ValidationError else Inr v)"

text \<open>
  The field \<open>nombre: str = Field(min_length=3, max_length=80)\<close> with its validator.
  A \<open>field_validator\<close> runs in mode \<open>after\<close>: pydantic checks the declared constraints
  on the value received, and calls the validator on a value that passed them.
\<close>

definition field_nombre :: "pystr \<Rightarrow> error + pystr" where
  "field_nombre v =
     (if length v < 3 \<or> 80 < length v then Inl ValidationError else validar_nombre v)"

text \<open>
  The acceptance rule in the specification's words: length 3 to 80, every character in
  the class, the first one alphanumeric.
\<close>

definition name_ok :: "pystr \<Rightarrow> bool" where
  "name_ok v \<longleftrightarrow> 3 \<le> length v \<and> length v \<le> 80 \<and> list_all name_rest v \<and> name_first (hd v)"

definition collapse :: "pystr \<Rightarrow> pystr" where
  "collapse v = join_space (py_split (py_strip v))"

text \<open>A word of \<open>split()\<close>: not empty, and free of white space.\<close>

definition word :: "pystr \<Rightarrow> bool" where
  "word u \<longleftrightarrow> u \<noteq> [] \<and> list_all (\<lambda>c. \<not> isspace c) u"

section \<open>Decimals\<close>

text \<open>
  A finite \<open>Decimal\<close> is a sign, a coefficient and an exponent: its value is
  \<open>\<plusminus> coef \<times> 10\<^bsup>expo\<^esup>\<close>.  A \<open>Decimal\<close> may also be an infinity or a (quiet or
  signalling) NaN.
\<close>

datatype findec = Fin (neg: bool) (coef: nat) (expo: int)

datatype decimal = Finite findec | Infinity bool | NaN | SNaN

definition dec_value :: "findec \<Rightarrow> rat" where
  "dec_value d = (if neg d then - 1 else 1) * of_nat (coef d) * 10 powi expo d"

text \<open>The number of digits of the coefficient (\<open>len(self._int)\<close>).\<close>

fun ndigits :: "nat \<Rightarrow> nat" where
  "ndigits n = (if n < 10 then 1 else Suc (ndigits (n div 10)))"

declare ndigits.simps [simp del]

definition adjusted :: "findec \<Rightarrow> int" where
  "adjusted d = expo d + int (ndigits (coef d)) - 1"

text \<open>The default context of the \<open>decimal\<close> module.\<close>

definition prec :: int where "prec = 28"
definition Emax :: int where "Emax = 999999"

text \<open>
  Comparison of finite decimals is comparison of their values; both coefficients are
  brought to the smaller exponent.
\<close>

definition scaled :: "int \<Rightarrow> findec \<Rightarrow> int" where
  "scaled m d = (if neg d then - 1 else 1) * int (coef d) * 10 ^ nat (expo d - m)"

definition fin_le :: "findec \<Rightarrow> findec \<Rightarrow> bool" where
  "fin_le a b = (let m = min (expo a) (expo b) in scaled m a \<le> scaled m b)"

definition fin_less :: "findec \<Rightarrow> findec \<Rightarrow> bool" where
  "fin_less a b = (let m = min (expo a) (expo b) in scaled m a < scaled m b)"

text \<open>
  \<open>_rescale(-2, ROUND_HALF_UP)\<close> of a finite decimal: zeros are appended when the
  exponent is at least \<open>-2\<close>; otherwise the digits beyond the second fractional one are
  cut, and the coefficient is incremented when the first digit cut is 5 or more.
\<close>

definition rescale_half_up :: "findec \<Rightarrow> findec" where
  "rescale_half_up d =
     (if - 2 \<le> expo d then Fin (neg d) (coef d * 10 ^ nat (expo d + 2)) (- 2)
      else let p = 10 ^ nat (- 2 - expo d); q = coef d div p; r = coef d mod p
           in Fin (neg d) (if p \<le> 2 * r then q + 1 else q) (- 2))"

text \<open>
  The value of \<open>v.quantize(Decimal("0.01"), rounding=ROUND_HALF_UP)\<close> when it returns:
  a quiet NaN (the operand was one) or a finite number with exponent -2.  It never
  returns an infinity, since the second operand is finite.
\<close>

datatype quantized = QNaN | QFinite findec

text \<open>
  \<open>v.quantize(Decimal("0.01"), rounding=ROUND_HALF_UP)\<close>; \<open>None\<close> is the exception
  \<open>InvalidOperation\<close> (an infinity, a signalling NaN, or a result of more than \<open>prec\<close>
  digits).
\<close>

definition quantize :: "decimal \<Rightarrow> quantized option" where
  "quantize v =
     (case v of
        NaN \<Rightarrow> Some QNaN
      | SNaN \<Rightarrow> None
      | Infinity s \<Rightarrow> None
      | Finite d \<Rightarrow>
          if coef d = 0 then Some (QFinite (Fin (neg d) 0 (- 2)))
          else if Emax < adjusted d then None
          else if prec < adjusted d + 2 + 1 then None
          else let a = rescale_half_up d
               in if Emax < adjusted a then None
                  else if prec < int (ndigits (coef a)) then None
                  else Some (QFinite a))"

text \<open>
  The validator \<open>validar_precio\<close>.  \<open>q <= 0\<close> on a NaN raises \<open>InvalidOperation\<close>
  outside the \<open>try\<close>.  A value returned is finite.
\<close>

definition validar_precio :: "decimal \<Rightarrow> error + findec" where
  "validar_precio v =
     (case quantize v of
        None \<Rightarrow> Inl ValidationError
      | Some QNaN \<Rightarrow> Inl InvalidOperation
      | Some (QFinite a) \<Rightarrow>
          if fin_le a (Fin False 0 0) then Inl ValidationError else Inr a)"

text \<open>
  The field \<open>precio: Decimal = Field(gt=0, le=Decimal("1000000"))\<close> with its validator:
  pydantic refuses a value that is not finite, then checks the bounds on the value
  received, then calls the validator.
\<close>

definition field_precio :: "decimal \<Rightarrow> error + findec" where
  "field_precio v =
     (case v of
        Finite d \<Rightarrow>
          if \<not> fin_less (Fin False 0 0) d then Inl ValidationError
          else if \<not> fin_le d (Fin False 1000000 0) then Inl ValidationError
          else validar_precio v
      | _ \<Rightarrow> Inl ValidationError)"

text \<open>
  Rounding half up to two fractional digits, on the exact value: ties go away from
  zero.
\<close>

definition round_half_up_cents :: "rat \<Rightarrow> rat" where
  "round_half_up_cents x = sgn x * of_int \<lfloor>\<bar>x\<bar> * 100 + 1 / 2\<rfloor> / 100"

text \<open>What the field validation of a price returns: a positive number of cents, at most
  1000000.00.\<close>

definition valid_precio :: "findec \<Rightarrow> bool" where
  "valid_precio a \<longleftrightarrow> \<not> neg a \<and> 0 < coef a \<and> coef a \<le> 100000000 \<and> expo a = - 2"

section \<open>Unicode data\<close>

text \<open>
  \<open>str.lower\<close>, \<open>unicodedata.normalize("NFKD", s)\<close> and \<open>unicodedata.combining\<close> read
  the Unicode character database, which is not part of the repository.  On ASCII text
  their values are written out: the letters \<open>A-Z\<close> are lower-cased by adding 32, and
  no ASCII character has a decomposition or a combining class.  On any other text their
  values are those of the parameter \<open>U\<close>, so what is proved holds whatever the database
  says there.
\<close>

record ucd =
  lower_nonascii :: "pystr \<Rightarrow> pystr"
  nfkd_nonascii :: "pystr \<Rightarrow> pystr"
  combining_nonascii :: "nat \<Rightarrow> nat"

definition is_ascii :: "pystr \<Rightarrow> bool" where
  "is_ascii s = list_all (\<lambda>c. c < 128) s"

definition ascii_lower :: "nat \<Rightarrow> nat" where
  "ascii_lower c = (if 65 \<le> c \<and> c \<le> 90 then c + 32 else c)"

definition py_lower :: "ucd \<Rightarrow> pystr \<Rightarrow> pystr" where
  "py_lower U s = (if is_ascii s then map ascii_lower s else lower_nonascii U s)"

definition normalize_NFKD :: "ucd \<Rightarrow> pystr \<Rightarrow> pystr" where
  "normalize_NFKD U s = (if is_ascii s then s else nfkd_nonascii U s)"

definition combining :: "ucd \<Rightarrow> nat \<Rightarrow> nat" where
  "combining U c = (if c < 128 then 0 else combining_nonascii U c)"

text \<open>\<open>_strip_accents\<close> of \<open>models.py\<close>.\<close>

definition strip_accents :: "ucd \<Rightarrow> pystr \<Rightarrow> pystr" where
  "strip_accents U s = filter (\<lambda>c. combining U c = 0) (normalize_NFKD U s)"

text \<open>
  The database on the alphabet of \<open>_name_re\<close> and on Latin-1 capitals, to run examples
  on accented names: the capitals of Latin-1 are lower-cased by adding 32, the twelve
  accented letters decompose into a base letter and U+0301 (acute) or U+0303 (tilde), and
  these two marks have combining class 230.
\<close>

definition latin1_lower :: "nat \<Rightarrow> nat" where
  "latin1_lower c =
     (if (65 \<le> c \<and> c \<le> 90) \<or> (192 \<le> c \<and> c \<le> 222 \<and> c \<noteq> 215) then c + 32 else c)"

definition es_nfkd :: "nat \<Rightarrow> pystr" where
  "es_nfkd c =
     (if c = 193 then [65, 769] else if c = 201 then [69, 769] else if c = 205 then [73, 769]
      else if c = 211 then [79, 769] else if c = 218 then [85, 769]
      else if c = 225 then [97, 769] else if c = 233 then [101, 769]
      else if c = 237 then [105, 769] else if c = 243 then [111, 769]
      else if c = 250 then [117, 769]
      else if c = 209 then [78, 771] else if c = 241 then [110, 771] else [c])"

definition ucd_es :: ucd where
  "ucd_es = \<lparr>lower_nonascii = map latin1_lower,
             nfkd_nonascii = (\<lambda>s. concat (map es_nfkd s)),
             combining_nonascii = (\<lambda>c. if c = 769 \<or> c = 771 then 230 else 0)\<rparr>"

section \<open>The categories field\<close>

definition CATEGORIAS_PERMITIDAS :: "pystr set" where
  "CATEGORIAS_PERMITIDAS =
     {str ''fruta'', str ''verdura'', str ''grano'', str ''legumbre'', str ''lacteo'',
      str ''carnico'', str ''procesado'', str ''organico'', str ''bebida'', str ''especia''}"

text \<open>The loop of \<open>validar_categorias\<close>, with its two accumulators.\<close>

fun categorias_loop :: "ucd \<Rightarrow> pystr list \<Rightarrow> pystr set \<Rightarrow> pystr list \<Rightarrow> error + pystr list" where
  "categorias_loop U limpias vistos [] = Inr limpias"
| "categorias_loop U limpias vistos (c # cs) =
     (let c_norm = strip_accents U (join_space (py_split (py_lower U (py_strip c))))
      in if c_norm = [] \<or> c_norm \<notin> CATEGORIAS_PERMITIDAS then Inl ValidationError
         else if c_norm \<notin> vistos
           then categorias_loop U (limpias @ [c_norm]) (insert c_norm vistos) cs
           else categorias_loop U limpias vistos cs)"

definition validar_categorias :: "ucd \<Rightarrow> pystr list \<Rightarrow> error + pystr list" where
  "validar_categorias U valores = categorias_loop U [] {} valores"

text \<open>
  The field \<open>categorias: List[str] = Field(min_items=1, max_items=10)\<close> with its
  validator; the bounds are checked on the list received.
\<close>

definition field_categorias :: "ucd \<Rightarrow> pystr list \<Rightarrow> error + pystr list" where
  "field_categorias U valores =
     (if length valores < 1 \<or> 10 < length valores then Inl ValidationError
      else validar_categorias U valores)"

text \<open>
  In the specification's words: the normalized form of an entry, and the removal of
  duplicates that keeps the first occurrence of each value, in the original order.
\<close>

definition norm_categoria :: "ucd \<Rightarrow> pystr \<Rightarrow> pystr" where
  "norm_categoria U c = strip_accents U (join_space (py_split (py_lower U (py_strip c))))"

fun dedup_first :: "'a list \<Rightarrow> 'a list" where
  "dedup_first [] = []"
| "dedup_first (x # xs) = x # dedup_first (filter (\<lambda>y. y \<noteq> x) xs)"

text \<open>What the field validation of categories returns.\<close>

definition valid_categorias :: "pystr list \<Rightarrow> bool" where
  "valid_categorias cs \<longleftrightarrow>
     cs \<noteq> [] \<and> length cs \<le> 10 \<and> distinct cs \<and> set cs \<subseteq> CATEGORIAS_PERMITIDAS"

section \<open>Models\<close>

text \<open>A \<open>UUID\<close> is a 128-bit number.\<close>

type_synonym uuid = nat

text \<open>
  \<open>ProductoCreate\<close>, and \<open>ProductoOut\<close>, which inherits from it and adds \<open>id\<close>.  The
  price of a model instance is a finite decimal, since the validator returns no other.
\<close>

record producto_create =
  nombre :: pystr
  precio :: findec
  categorias :: "pystr list"

record producto_out = producto_create +
  id' :: uuid

text \<open>
  Building a \<open>ProductoCreate\<close> validates its three fields.  An argument \<open>None\<close> is the
  value \<open>None\<close>, which is neither a string, a decimal nor a list.
\<close>

definition ProductoCreate ::
  "ucd \<Rightarrow> pystr option \<Rightarrow> decimal option \<Rightarrow> pystr list option \<Rightarrow> error + producto_create" where
  "ProductoCreate U n p cs =
     (case (n, p, cs) of
        (Some n0, Some p0, Some cs0) \<Rightarrow>
          (case field_nombre n0 of Inl e \<Rightarrow> Inl e
           | Inr n1 \<Rightarrow>
              (case field_precio p0 of Inl e \<Rightarrow> Inl e
               | Inr p1 \<Rightarrow>
                  (case field_categorias U cs0 of Inl e \<Rightarrow> Inl e
                   | Inr cs1 \<Rightarrow> Inr \<lparr>nombre = n1, precio = p1, categorias = cs1\<rparr>)))
      | _ \<Rightarrow> Inl ValidationError)"

text \<open>
  \<open>ProductoOut(id=i, **prod.model_dump())\<close>: the fields of \<open>prod\<close> are validated again.
  In \<open>crear\<close>, \<open>i\<close> is the value that \<open>uuid4()\<close> returns.
\<close>

definition ProductoOut :: "ucd \<Rightarrow> uuid \<Rightarrow> producto_create \<Rightarrow> error + producto_out" where
  "ProductoOut U i prod0 =
     (case ProductoCreate U (Some (nombre prod0)) (Some (Finite (precio prod0)))
             (Some (categorias prod0)) of
        Inl e \<Rightarrow> Inl e
      | Inr c \<Rightarrow> Inr \<lparr>nombre = nombre c, precio = precio c, categorias = categorias c, id' = i\<rparr>)"

text \<open>
  A field of \<open>ProductoUpdate\<close> is unset (absent from the request), or set, to \<open>None\<close> or
  to a value.  \<open>model_dump(exclude_unset=True)\<close> holds the set fields.
\<close>

datatype 'a field = Unset | Given "'a option"

record producto_update =
  upd_nombre :: "pystr field"
  upd_precio :: "findec field"
  upd_categorias :: "pystr list field"

text \<open>
  The validators of \<open>ProductoUpdate\<close> return \<open>None\<close> as it is and treat a value as those
  of \<open>ProductoCreate\<close> do; the declared constraints apply to a value, not to \<open>None\<close>.
\<close>

definition validar_nombre_opt :: "pystr option \<Rightarrow> error + pystr option" where
  "validar_nombre_opt v0 =
     (case v0 of None \<Rightarrow> Inr None
      | Some s \<Rightarrow>
          (let v = join_space (py_split (py_strip s))
           in if \<not> name_re_match v then Inl ValidationError else Inr (Some v)))"

definition validar_precio_opt :: "decimal option \<Rightarrow> error + findec option" where
  "validar_precio_opt v0 =
     (case v0 of None \<Rightarrow> Inr None
      | Some v \<Rightarrow>
          (case quantize v of
             None \<Rightarrow> Inl ValidationError
           | Some QNaN \<Rightarrow> Inl InvalidOperation
           | Some (QFinite a) \<Rightarrow>
               if fin_le a (Fin False 0 0) then Inl ValidationError else Inr (Some a)))"

definition validar_categorias_opt :: "ucd \<Rightarrow> pystr list option \<Rightarrow> error + pystr list option" where
  "validar_categorias_opt U valores =
     (case valores of None \<Rightarrow> Inr None
      | Some vs \<Rightarrow>
          (case categorias_loop U [] {} vs of Inl e \<Rightarrow> Inl e | Inr limpias \<Rightarrow> Inr (Some limpias)))"

definition field_nombre_opt :: "pystr option \<Rightarrow> error + pystr option" where
  "field_nombre_opt v =
     (case v of None \<Rightarrow> validar_nombre_opt None
      | Some s \<Rightarrow>
          if length s < 3 \<or> 80 < length s then Inl ValidationError
          else validar_nombre_opt (Some s))"

definition field_precio_opt :: "decimal option \<Rightarrow> error + findec option" where
  "field_precio_opt v =
     (case v of None \<Rightarrow> validar_precio_opt None
      | Some (Finite d) \<Rightarrow>
          if \<not> fin_less (Fin False 0 0) d then Inl ValidationError
          else if \<not> fin_le d (Fin False 1000000 0) then Inl ValidationError
          else validar_precio_opt (Some (Finite d))
      | Some _ \<Rightarrow> Inl ValidationError)"

definition field_categorias_opt :: "ucd \<Rightarrow> pystr list option \<Rightarrow> error + pystr list option" where
  "field_categorias_opt U v =
     (case v of None \<Rightarrow> validar_categorias_opt U None
      | Some vs \<Rightarrow>
          if length vs < 1 \<or> 10 < length vs then Inl ValidationError
          else validar_categorias_opt U (Some vs))"

text \<open>A set field is validated; an unset field keeps its default and is not.\<close>

definition on_field :: "('a option \<Rightarrow> error + 'b option) \<Rightarrow> 'a field \<Rightarrow> error + 'b field" where
  "on_field f x =
     (case x of Unset \<Rightarrow> Inr Unset
      | Given v \<Rightarrow> (case f v of Inl e \<Rightarrow> Inl e | Inr w \<Rightarrow> Inr (Given w)))"

definition ProductoUpdate ::
  "ucd \<Rightarrow> pystr field \<Rightarrow> decimal field \<Rightarrow> pystr list field \<Rightarrow> error + producto_update" where
  "ProductoUpdate U n p cs =
     (case on_field field_nombre_opt n of Inl e \<Rightarrow> Inl e
      | Inr n1 \<Rightarrow>
         (case on_field field_precio_opt p of Inl e \<Rightarrow> Inl e
          | Inr p1 \<Rightarrow>
             (case on_field (field_categorias_opt U) cs of Inl e \<Rightarrow> Inl e
              | Inr cs1 \<Rightarrow> Inr \<lparr>upd_nombre = n1, upd_precio = p1, upd_categorias = cs1\<rparr>)))"

record productos_page =
  page_total :: int
  page_items :: "producto_out list"

section \<open>The repository\<close>

text \<open>
  \<open>RepoProductos\<close>.  \<open>_items\<close> is a \<open>dict\<close>, which keeps its keys in insertion order:
  an association list, where assigning to a key that is present replaces its value in
  place and assigning to a new key appends.  \<open>_name_to_id\<close> is a map.  A method returns
  its result, or the exception it raises, together with the repository it leaves.
\<close>

record repo_productos =
  items :: "(uuid \<times> producto_out) list"
  name_to_id :: "pystr \<rightharpoonup> uuid"

definition RepoProductos :: repo_productos where
  "RepoProductos = \<lparr>items = [], name_to_id = Map.empty\<rparr>"

definition norm_name :: "ucd \<Rightarrow> pystr \<Rightarrow> pystr" where
  "norm_name U s = py_lower U s"

text \<open>A \<open>UUID\<close> object is true, so \<open>exclude_id and found == exclude_id\<close> is the equality.\<close>

definition existe_nombre :: "repo_productos \<Rightarrow> pystr \<Rightarrow> uuid option \<Rightarrow> bool" where
  "existe_nombre repo nombre_norm exclude_id =
     (case name_to_id repo nombre_norm of
        None \<Rightarrow> False
      | Some found \<Rightarrow> if exclude_id = Some found then False else True)"

definition crear ::
  "ucd \<Rightarrow> repo_productos \<Rightarrow> producto_create \<Rightarrow> uuid \<Rightarrow> (error + producto_out) \<times> repo_productos" where
  "crear U repo prod0 uid =
     (case ProductoOut U uid prod0 of
        Inl e \<Rightarrow> (Inl e, repo)
      | Inr item \<Rightarrow>
          (Inr item,
           \<lparr>items = AList.update (id' item) item (items repo),
            name_to_id = (name_to_id repo)(norm_name U (nombre item) \<mapsto> id' item)\<rparr>))"

definition obtener :: "repo_productos \<Rightarrow> uuid \<Rightarrow> producto_out option" where
  "obtener repo i = map_of (items repo) i"

text \<open>\<open>xs[start:stop]\<close> for any two integers, as Python clamps them.\<close>

definition slice_index :: "nat \<Rightarrow> int \<Rightarrow> nat" where
  "slice_index n i = (if i < 0 then nat (max (i + int n) 0) else min (nat i) n)"

definition py_slice :: "'a list \<Rightarrow> int \<Rightarrow> int \<Rightarrow> 'a list" where
  "py_slice xs start stop =
     (let lo = slice_index (length xs) start; hi = slice_index (length xs) stop
      in take (hi - lo) (drop lo xs))"

text \<open>\<open>xs in ys\<close> for two strings: \<open>xs\<close> occurs in \<open>ys\<close> as a substring.\<close>

fun py_in :: "pystr \<Rightarrow> pystr \<Rightarrow> bool" where
  "py_in xs [] \<longleftrightarrow> xs = []"
| "py_in xs (y # ys) \<longleftrightarrow> prefix xs (y # ys) \<or> py_in xs ys"

text \<open>The four filters of \<open>listar\<close>; a filter whose argument is \<open>None\<close> or empty is skipped.\<close>

definition filtro_q :: "ucd \<Rightarrow> pystr option \<Rightarrow> producto_out list \<Rightarrow> producto_out list" where
  "filtro_q U q datos =
     (case q of None \<Rightarrow> datos
      | Some s \<Rightarrow>
          if s = [] then datos
          else let qn = strip_accents U (py_lower U (py_strip s))
               in filter (\<lambda>p. py_in qn (strip_accents U (py_lower U (nombre p)))) datos)"

definition filtro_categoria :: "ucd \<Rightarrow> pystr option \<Rightarrow> producto_out list \<Rightarrow> producto_out list" where
  "filtro_categoria U categoria datos =
     (case categoria of None \<Rightarrow> datos
      | Some s \<Rightarrow>
          if s = [] then datos
          else let cat = strip_accents U (py_lower U (py_strip s))
               in filter (\<lambda>p. cat \<in> set (categorias p)) datos)"

definition filtro_min :: "findec option \<Rightarrow> producto_out list \<Rightarrow> producto_out list" where
  "filtro_min min_precio datos =
     (case min_precio of None \<Rightarrow> datos
      | Some m \<Rightarrow> filter (\<lambda>p. fin_le m (precio p)) datos)"

definition filtro_max :: "findec option \<Rightarrow> producto_out list \<Rightarrow> producto_out list" where
  "filtro_max max_precio datos =
     (case max_precio of None \<Rightarrow> datos
      | Some m \<Rightarrow> filter (\<lambda>p. fin_le (precio p) m) datos)"

definition listar ::
  "ucd \<Rightarrow> repo_productos \<Rightarrow> pystr option \<Rightarrow> pystr option \<Rightarrow> findec option \<Rightarrow> findec option \<Rightarrow>
   int \<Rightarrow> int \<Rightarrow> producto_out list \<times> int" where
  "listar U repo q categoria min_precio max_precio limit offset =
     (let datos = map snd (items repo);
          datos = filtro_q U q datos;
          datos = filtro_categoria U categoria datos;
          datos = filtro_min min_precio datos;
          datos = filtro_max max_precio datos;
          total = int (length datos);
          datos = py_slice datos offset (offset + limit)
      in (datos, total))"

text \<open>
  \<open>actualizar_full\<close>.  The old index entry is deleted before \<open>ProductoOut\<close> is built, so
  an exception of \<open>ProductoOut\<close> would leave the index without it.
\<close>

definition actualizar_full ::
  "ucd \<Rightarrow> repo_productos \<Rightarrow> uuid \<Rightarrow> producto_create \<Rightarrow> (error + producto_out) \<times> repo_productos" where
  "actualizar_full U repo i prod0 =
     (case obtener repo i of
        None \<Rightarrow> (Inl NotFound, repo)
      | Some actual \<Rightarrow>
          (let nombre_norm = norm_name U (nombre prod0)
           in if existe_nombre repo nombre_norm (Some i) then (Inl DuplicateName, repo)
              else
                (let viejo_norm = norm_name U (nombre actual);
                     idx = (if name_to_id repo viejo_norm \<noteq> None
                            then (name_to_id repo)(viejo_norm := None) else name_to_id repo)
                 in case ProductoOut U i prod0 of
                      Inl e \<Rightarrow> (Inl e, repo\<lparr>name_to_id := idx\<rparr>)
                    | Inr nuevo \<Rightarrow>
                        (Inr nuevo,
                         \<lparr>items = AList.update i nuevo (items repo),
                          name_to_id = idx(nombre_norm \<mapsto> i)\<rparr>))))"

definition actualizar_partial ::
  "ucd \<Rightarrow> repo_productos \<Rightarrow> uuid \<Rightarrow> producto_update \<Rightarrow> (error + producto_out) \<times> repo_productos" where
  "actualizar_partial U repo i cambios =
     (case obtener repo i of
        None \<Rightarrow> (Inl NotFound, repo)
      | Some actual \<Rightarrow>
          (let base_nombre = (case upd_nombre cambios of Unset \<Rightarrow> Some (nombre actual) | Given v \<Rightarrow> v);
               base_precio = (case upd_precio cambios of Unset \<Rightarrow> Some (precio actual) | Given v \<Rightarrow> v);
               base_categorias =
                 (case upd_categorias cambios of Unset \<Rightarrow> Some (categorias actual) | Given v \<Rightarrow> v)
           in case ProductoCreate U base_nombre (map_option Finite base_precio) base_categorias of
                Inl e \<Rightarrow> (Inl e, repo)
              | Inr candidato \<Rightarrow>
                  if py_lower U (nombre candidato) \<noteq> py_lower U (nombre actual) \<and>
                     existe_nombre repo (norm_name U (nombre candidato)) None
                  then (Inl DuplicateName, repo)
                  else actualizar_full U repo i candidato))"

definition borrar :: "ucd \<Rightarrow> repo_productos \<Rightarrow> uuid \<Rightarrow> (error + unit) \<times> repo_productos" where
  "borrar U repo i =
     (case obtener repo i of
        None \<Rightarrow> (Inl NotFound, repo)
      | Some actual \<Rightarrow>
          (let norm = norm_name U (nombre actual)
           in (Inr (),
               \<lparr>items = AList.delete i (items repo),
                name_to_id = (if name_to_id repo norm = Some i
                              then (name_to_id repo)(norm := None) else name_to_id repo)\<rparr>)))"

section \<open>Endpoints\<close>

text \<open>
  The payload of an endpoint is a model instance, which FastAPI builds from the request
  body (\<open>ProductoCreate\<close>, \<open>ProductoUpdate\<close>); \<open>uid\<close> is the value \<open>uuid4()\<close> returns
  in \<open>crear\<close>.
\<close>

definition crear_producto ::
  "ucd \<Rightarrow> repo_productos \<Rightarrow> producto_create \<Rightarrow> uuid \<Rightarrow> (error + producto_out) \<times> repo_productos" where
  "crear_producto U repo payload uid =
     (if existe_nombre repo (py_lower U (nombre payload)) None then (Inl DuplicateName, repo)
      else crear U repo payload uid)"

definition listar_productos ::
  "ucd \<Rightarrow> repo_productos \<Rightarrow> pystr option \<Rightarrow> pystr option \<Rightarrow> findec option \<Rightarrow> findec option \<Rightarrow>
   int \<Rightarrow> int \<Rightarrow> error + productos_page" where
  "listar_productos U repo q categoria min_precio max_precio limit offset =
     (if min_precio \<noteq> None \<and> max_precio \<noteq> None \<and> fin_less (the max_precio) (the min_precio)
      then Inl InvalidRange
      else (case listar U repo q categoria min_precio max_precio limit offset of
              (its, n) \<Rightarrow> Inr \<lparr>page_total = n, page_items = its\<rparr>))"

definition obtener_producto :: "repo_productos \<Rightarrow> uuid \<Rightarrow> error + producto_out" where
  "obtener_producto repo i = (case obtener repo i of None \<Rightarrow> Inl NotFound | Some prod0 \<Rightarrow> Inr prod0)"

definition reemplazar_producto ::
  "ucd \<Rightarrow> repo_productos \<Rightarrow> uuid \<Rightarrow> producto_create \<Rightarrow> (error + producto_out) \<times> repo_productos" where
  "reemplazar_producto U repo i payload = actualizar_full U repo i payload"

definition actualizar_parcial_producto ::
  "ucd \<Rightarrow> repo_productos \<Rightarrow> uuid \<Rightarrow> producto_update \<Rightarrow> (error + producto_out) \<times> repo_productos" where
  "actualizar_parcial_producto U repo i payload =
     (if upd_nombre payload = Unset \<and> upd_precio payload = Unset \<and> upd_categorias payload = Unset
      then (Inl EmptyPatch, repo)
      else actualizar_partial U repo i payload)"

definition eliminar_producto :: "ucd \<Rightarrow> repo_productos \<Rightarrow> uuid \<Rightarrow> (error + unit) \<times> repo_productos" where
  "eliminar_producto U repo i = borrar U repo i"

section \<open>Reachable repositories\<close>

text \<open>
  The repositories that requests to the four writing endpoints produce from the empty
  one.  A request body is any three values (or, for a patch, fields), from which the
  payload is built.  \<open>uuid4()\<close> is taken to return an identifier that no stored product
  has.
\<close>

inductive reachable :: "ucd \<Rightarrow> repo_productos \<Rightarrow> bool" for U :: ucd where
  init: "reachable U RepoProductos"
| post: "reachable U s \<Longrightarrow> ProductoCreate U n p cs = Inr payload \<Longrightarrow>
         uid \<notin> fst ` set (items s) \<Longrightarrow>
         reachable U (snd (crear_producto U s payload uid))"
| put: "reachable U s \<Longrightarrow> ProductoCreate U n p cs = Inr payload \<Longrightarrow>
        reachable U (snd (reemplazar_producto U s i payload))"
| patch: "reachable U s \<Longrightarrow> ProductoUpdate U n p cs = Inr payload \<Longrightarrow>
          reachable U (snd (actualizar_parcial_producto U s i payload))"
| delete: "reachable U s \<Longrightarrow> reachable U (snd (eliminar_producto U s i))"

text \<open>
  In the specification's words: a product survives the filters of a listing when it
  passes each filter that is given.
\<close>

definition sobrevive ::
  "ucd \<Rightarrow> pystr option \<Rightarrow> pystr option \<Rightarrow> findec option \<Rightarrow> findec option \<Rightarrow> producto_out \<Rightarrow> bool" where
  "sobrevive U q categoria min_precio max_precio p \<longleftrightarrow>
     (case q of None \<Rightarrow> True
      | Some s \<Rightarrow> s = [] \<or>
          py_in (strip_accents U (py_lower U (py_strip s))) (strip_accents U (py_lower U (nombre p)))) \<and>
     (case categoria of None \<Rightarrow> True
      | Some s \<Rightarrow> s = [] \<or> strip_accents U (py_lower U (py_strip s)) \<in> set (categorias p)) \<and>
     (case min_precio of None \<Rightarrow> True | Some m \<Rightarrow> fin_le m (precio p)) \<and>
     (case max_precio of None \<Rightarrow> True | Some m \<Rightarrow> fin_le (precio p) m)"

text \<open>The \<open>ProductoOut\<close> with the fields of a payload and a given \<open>id\<close>.\<close>

definition con_id :: "producto_create \<Rightarrow> uuid \<Rightarrow> producto_out" where
  "con_id c i = \<lparr>nombre = nombre c, precio = precio c, categorias = categorias c, id' = i\<rparr>"

text \<open>What a stored product satisfies, and the invariant of the repository.\<close>

definition valid_producto :: "'a producto_create_scheme \<Rightarrow> bool" where
  "valid_producto p \<longleftrightarrow>
     field_nombre (nombre p) = Inr (nombre p) \<and> valid_precio (precio p) \<and>
     valid_categorias (categorias p)"

definition repo_inv :: "ucd \<Rightarrow> repo_productos \<Rightarrow> bool" where
  "repo_inv U s \<longleftrightarrow>
     distinct (map fst (items s)) \<and>
     (\<forall>i p. obtener s i = Some p \<longrightarrow> id' p = i \<and> valid_producto p) \<and>
     (\<forall>n i. name_to_id s n = Some i \<longleftrightarrow> (\<exists>p. obtener s i = Some p \<and> norm_name U (nombre p) = n))"

section \<open>Example payloads and repositories\<close>

text \<open>
  Four payloads, as \<open>ProductoCreate\<close> builds them; the name of \<open>cafe_acento\<close> is
  \<open>Caf\<close> followed by U+00E9, the accented e.  \<open>repo_uno\<close> is the repository after the
  first is created with the identifier 11, \<open>repo_cafes\<close> the repository after the two
  others are created, with the identifiers 11 and 12.
\<close>

definition manzana :: producto_create where
  "manzana = \<lparr>nombre = str ''Manzana Roja'', precio = Fin False 1000 (- 2),
              categorias = [str ''fruta'']\<rparr>"

definition cafe_acento :: producto_create where
  "cafe_acento = \<lparr>nombre = [67, 97, 102, 233], precio = Fin False 550 (- 2),
                  categorias = [str ''bebida'']\<rparr>"

definition cafe :: producto_create where
  "cafe = \<lparr>nombre = str ''Cafe'', precio = Fin False 500 (- 2),
           categorias = [str ''bebida'']\<rparr>"

definition cafe_mayus :: producto_create where
  "cafe_mayus = \<lparr>nombre = str ''CAFE'', precio = Fin False 300 (- 2),
                 categorias = [str ''bebida'']\<rparr>"

definition repo_uno :: repo_productos where
  "repo_uno = \<lparr>items = [(11, con_id manzana 11)],
               name_to_id = [str ''manzana roja'' \<mapsto> 11]\<rparr>"

definition repo_cafes :: repo_productos where
  "repo_cafes = \<lparr>items = [(11, con_id cafe_acento 11), (12, con_id cafe 12)],
                 name_to_id = [[99, 97, 102, 233] \<mapsto> 11, str ''cafe'' \<mapsto> 12]\<rparr>"

section \<open>Properties of the name field\<close>

lemma split_acc_words:
  "list_all (\<lambda>c. \<not> isspace c) w \<Longrightarrow> list_all word (split_acc w s)"
proof (induction w s rule: split_acc.induct)
  case (1 w)
  then show ?case by (simp add: word_def)
next
  case (2 w c cs)
  show ?case
  proof (cases "isspace c")
    case True
    then show ?thesis using 2 by (cases "w = []") (simp_all add: word_def)
  next
    case False
    then show ?thesis using 2 by simp
  qed
qed

lemma py_split_words: "list_all word (py_split s)"
  unfolding py_split_def by (rule split_acc_words) simp

lemma join_space_chars:
  "list_all word ws \<Longrightarrow> list_all (\<lambda>c. c = 32 \<or> \<not> isspace c) (join_space ws)"
  by (induction ws rule: join_space.induct) (auto simp: word_def list_all_iff)

lemma collapse_chars: "list_all (\<lambda>c. c = 32 \<or> \<not> isspace c) (collapse v)"
  unfolding collapse_def by (rule join_space_chars) (rule py_split_words)

lemma length_join_Cons: "length (join_space (w # ws)) \<le> length w + 1 + length (join_space ws)"
  by (cases ws) simp_all

lemma length_join_split: "length (join_space (split_acc w s)) \<le> length w + length s"
proof (induction w s rule: split_acc.induct)
  case (1 w)
  then show ?case by simp
next
  case (2 w c cs)
  show ?case
  proof (cases "isspace c")
    case True
    then show ?thesis using 2 length_join_Cons [of w "split_acc [] cs"]
      by (cases "w = []") simp_all
  next
    case False
    then show ?thesis using 2 by simp
  qed
qed

lemma length_strip: "length (py_strip s) \<le> length s"
proof -
  have "length (py_strip s) \<le> length (dropWhile isspace s)"
    unfolding py_strip_def
    using length_dropWhile_le [of isspace "rev (dropWhile isspace s)"] by simp
  also have "\<dots> \<le> length s" by (rule length_dropWhile_le)
  finally show ?thesis .
qed

lemma length_collapse: "length (collapse v) \<le> length v"
  unfolding collapse_def py_split_def
  using length_join_split [of "[]" "py_strip v"] length_strip [of v] by simp

lemma name_body_ok: "name_body v \<longleftrightarrow> name_ok v"
  by (cases v) (auto simp: name_body_def name_ok_def name_rest_def)

lemma name_re_match_collapse: "name_re_match (collapse v) \<longleftrightarrow> name_ok (collapse v)"
proof -
  have "\<not> (collapse v \<noteq> [] \<and> last (collapse v) = 10)"
  proof
    assume "collapse v \<noteq> [] \<and> last (collapse v) = 10"
    then have "10 \<in> set (collapse v)" using last_in_set by metis
    with collapse_chars [of v] have "(10::nat) = 32 \<or> \<not> isspace 10"
      unfolding list_all_iff by blast
    then show False by (simp add: isspace_def)
  qed
  then show ?thesis by (auto simp: name_re_match_def name_body_ok)
qed

lemma validar_nombre_collapse:
  "validar_nombre v = (if name_ok (collapse v) then Inr (collapse v) else Inl ValidationError)"
  using name_re_match_collapse [of v] by (simp add: validar_nombre_def collapse_def Let_def)

lemma field_nombre_eq:
  "field_nombre v =
     (if 80 < length v then Inl ValidationError
      else if name_ok (collapse v) then Inr (collapse v)
      else Inl ValidationError)"
proof -
  have "length v < 3 \<Longrightarrow> \<not> name_ok (collapse v)"
    using length_collapse [of v] by (simp add: name_ok_def)
  then show ?thesis
    by (auto simp: field_nombre_def validar_nombre_collapse)
qed

lemmas name_eval = collapse_def py_split_def py_strip_def isspace_def field_nombre_def
  validar_nombre_def name_re_match_def name_body_def name_first_def name_rest_def name_ok_def
  str_def Let_def

text \<open>
  Claim C2, as stated: every raw string whose trimmed and collapsed form has 3 to 80
  characters of the class and starts with an alphanumeric character is accepted.  The raw
  string of 78 spaces followed by \<open>abc\<close> has the collapsed form \<open>abc\<close>, which
  satisfies the rules, and is rejected: it has 81 characters, and \<open>max_length=80\<close> is
  checked on the string received, before it is trimmed.
\<close>

theorem C2_long_raw_rejected:
  "name_ok (collapse (replicate 78 32 @ str ''abc'')) \<and>
   field_nombre (replicate 78 32 @ str ''abc'') = Inl ValidationError \<and>
   field_nombre (replicate 78 32 @ str ''abc'') \<noteq> Inr (collapse (replicate 78 32 @ str ''abc''))"
proof -
  have "dropWhile isspace (replicate 78 32 @ str ''abc'') = dropWhile isspace (str ''abc'')"
    by (rule dropWhile_append2) (simp add: isspace_def)
  then have "dropWhile isspace (replicate 78 32 @ str ''abc'') = str ''abc''"
    by (simp add: isspace_def str_def)
  then have "collapse (replicate 78 32 @ str ''abc'') = str ''abc''"
    by (simp add: name_eval)
  moreover have "name_ok (str ''abc'')" by (simp add: name_eval)
  moreover have "field_nombre (replicate 78 32 @ str ''abc'') = Inl ValidationError"
    by (simp add: field_nombre_def str_def)
  ultimately show ?thesis by simp
qed

text \<open>
  Claim C2, amended: a raw string of more than 80 characters is rejected; any other raw
  string is trimmed and its runs of white space collapsed to single spaces, and it is
  accepted, with the collapsed form as the result, exactly when the collapsed form has 3
  to 80 characters, all of the class (letters, the accented letters, digits, space,
  hyphen, underscore, period), the first one alphanumeric; otherwise validation fails with
  a ValidationError.
\<close>

theorem C2_field_nombre:
  "field_nombre v =
     (if 80 < length v then Inl ValidationError
      else if name_ok (collapse v) then Inr (collapse v)
      else Inl ValidationError)"
  by (rule field_nombre_eq)

theorem C2_field_nombre_witness:
  "field_nombre (str ''  Manzana   Roja '') = Inr (str ''Manzana Roja'') \<and>
   field_nombre (str ''-ab'') = Inl ValidationError"
proof -
  have a: "collapse (str ''  Manzana   Roja '') = str ''Manzana Roja''"
    by (simp add: name_eval)
  have b: "name_ok (str ''Manzana Roja'')" by (simp add: name_eval)
  have c: "collapse (str ''-ab'') = str ''-ab''" by (simp add: name_eval)
  have d: "\<not> name_ok (str ''-ab'')" by (simp add: name_eval)
  have e: "length (str ''  Manzana   Roja '') \<le> 80" "length (str ''-ab'') \<le> 80"
    by (simp_all add: str_def)
  show ?thesis
    using C2_field_nombre [of "str ''  Manzana   Roja ''"] C2_field_nombre [of "str ''-ab''"]
      a b c d e by simp
qed

text \<open>Validating a validated name returns it.\<close>

lemma split_acc_dropWhile: "split_acc [] (dropWhile isspace s) = split_acc [] s"
  by (induction s) simp_all

lemma split_acc_spaces: "list_all isspace t \<Longrightarrow> split_acc w t = (if w = [] then [] else [w])"
  by (induction t arbitrary: w) simp_all

lemma split_acc_trailing: "list_all isspace t \<Longrightarrow> split_acc w (s @ t) = split_acc w s"
  by (induction w s rule: split_acc.induct) (simp_all add: split_acc_spaces)

lemma rstrip_decomp:
  "\<exists>t. list_all isspace t \<and> s = rev (dropWhile isspace (rev s)) @ t"
proof -
  have "rev (takeWhile isspace (rev s) @ dropWhile isspace (rev s)) = s" by simp
  then have "s = rev (dropWhile isspace (rev s)) @ rev (takeWhile isspace (rev s))"
    by (simp only: rev_append)
  moreover have "list_all isspace (rev (takeWhile isspace (rev s)))"
    by (simp add: list_all_iff) (meson set_takeWhileD)
  ultimately show ?thesis by blast
qed

lemma split_strip: "py_split (py_strip s) = py_split s"
proof -
  obtain t where t: "list_all isspace t"
    and d: "dropWhile isspace s = py_strip s @ t"
    using rstrip_decomp [of "dropWhile isspace s"] by (auto simp: py_strip_def)
  have "py_split s = split_acc [] (py_strip s @ t)"
    by (simp add: py_split_def d [symmetric] split_acc_dropWhile)
  then show ?thesis using t by (simp add: py_split_def split_acc_trailing)
qed

lemma split_acc_word:
  "list_all (\<lambda>c. \<not> isspace c) v \<Longrightarrow> split_acc w (v @ r) = split_acc (w @ v) r"
  by (induction v arbitrary: w) simp_all

lemma split_join: "list_all word ws \<Longrightarrow> py_split (join_space ws) = ws"
proof (induction ws rule: join_space.induct)
  case 1
  then show ?case by (simp add: py_split_def)
next
  case (2 w)
  then show ?case
    using split_acc_word [of w "[]" "[]"] by (simp add: py_split_def word_def)
next
  case (3 w v ws)
  then have "split_acc [] (w @ 32 # join_space (v # ws)) = split_acc w (32 # join_space (v # ws))"
    using split_acc_word [of w "[]" "32 # join_space (v # ws)"] by (simp add: word_def)
  also have "\<dots> = w # split_acc [] (join_space (v # ws))"
    using 3 by (simp add: word_def isspace_def)
  finally show ?case using 3 by (simp add: py_split_def)
qed

lemma collapse_idem: "collapse (collapse v) = collapse v"
  by (simp add: collapse_def split_strip split_join py_split_words)

lemma field_nombre_idem: "field_nombre v = Inr n \<Longrightarrow> field_nombre n = Inr n"
proof -
  assume "field_nombre v = Inr n"
  then have "n = collapse v" "name_ok n"
    by (auto simp: field_nombre_eq split: if_splits)
  then show ?thesis by (simp add: field_nombre_eq collapse_idem name_ok_def)
qed

section \<open>Properties of the price field\<close>

lemma ndigits_small: "n < 10 \<Longrightarrow> ndigits n = 1"
  by (subst ndigits.simps) simp

lemma ndigits_big: "\<not> n < 10 \<Longrightarrow> ndigits n = Suc (ndigits (n div 10))"
  by (subst ndigits.simps) simp

lemma ndigits_lower: "0 < n \<Longrightarrow> 10 ^ (ndigits n - 1) \<le> n"
proof (induction n rule: ndigits.induct)
  case (1 n)
  show ?case
  proof (cases "n < 10")
    case True
    then show ?thesis using 1 by (simp add: ndigits_small)
  next
    case False
    then have "0 < n div 10" by simp
    with 1 False have "10 ^ (ndigits (n div 10) - 1) \<le> n div 10" by simp
    then have "10 * 10 ^ (ndigits (n div 10) - 1) \<le> n" by simp
    moreover obtain m where "ndigits (n div 10) = Suc m"
      by (cases "n div 10 < 10") (simp_all add: ndigits_small ndigits_big)
    ultimately show ?thesis using False by (simp add: ndigits_big)
  qed
qed

lemma ndigits_le: "n < 10 ^ k \<Longrightarrow> 0 < k \<Longrightarrow> ndigits n \<le> k"
proof (cases "n = 0")
  case True
  assume "0 < k"
  then show ?thesis using True by (simp add: ndigits_small)
next
  case False
  assume a: "n < 10 ^ k" "0 < k"
  from False have "(10::nat) ^ (ndigits n - 1) \<le> n" using ndigits_lower by simp
  with a have "(10::nat) ^ (ndigits n - 1) < 10 ^ k" by (rule_tac le_less_trans)
  then have "ndigits n - 1 < k"
    using power_less_imp_less_exp [of "10::nat" "ndigits n - 1" k] by simp
  then show ?thesis by simp
qed

lemma round_div:
  fixes c p :: nat
  assumes "0 < p"
  shows "(2 * c + p) div (2 * p) = c div p + (if p \<le> 2 * (c mod p) then 1 else 0)"
proof -
  define q r where "q = c div p" and "r = c mod p"
  have c: "c = q * p + r" and r: "r < p" using assms by (simp_all add: q_def r_def)
  have e: "2 * c + p = q * (2 * p) + (2 * r + p)" using c by (simp add: algebra_simps)
  have nz: "2 * p \<noteq> 0" using assms by simp
  have "(2 * c + p) div (2 * p) = q + (2 * r + p) div (2 * p)"
    by (simp only: e div_mult_self3 [OF nz])
  moreover have "(2 * r + p) div (2 * p) = (if p \<le> 2 * r then 1 else 0)"
  proof (cases "p \<le> 2 * r")
    case True
    have "(2 * r + p) div (2 * p) = 1"
      by (rule div_nat_eqI) (use True r in simp_all)
    then show ?thesis using True by simp
  next
    case False
    then show ?thesis by simp
  qed
  ultimately show ?thesis by (simp add: q_def r_def)
qed

lemma pow10_pos: "\<not> (10::int) ^ k \<le> 0"
  by (simp add: not_le)

lemma fin_le_zero: "fin_le a (Fin False 0 0) \<longleftrightarrow> neg a \<or> coef a = 0"
  by (simp add: fin_le_def scaled_def Let_def mult_le_0_iff zero_le_mult_iff pow10_pos)

lemma fin_less_zero: "fin_less (Fin False 0 0) d \<longleftrightarrow> \<not> neg d \<and> 0 < coef d"
  by (simp add: fin_less_def scaled_def Let_def zero_less_mult_iff mult_less_0_iff pow10_pos)

lemma scaled_value:
  assumes "m \<le> expo d"
  shows "(of_int (scaled m d) :: rat) = dec_value d * 10 powi (- m)"
proof -
  have "(10::rat) ^ nat (expo d - m) = 10 powi (expo d - m)"
    using assms by (simp add: power_int_def)
  also have "\<dots> = 10 powi expo d * 10 powi (- m)"
    using power_int_add [of "10::rat" "expo d" "- m"] by simp
  finally show ?thesis by (simp add: scaled_def dec_value_def)
qed

lemma fin_le_value: "fin_le a b \<longleftrightarrow> dec_value a \<le> dec_value b"
proof -
  define m where "m = min (expo a) (expo b)"
  have p: "(0::rat) < 10 powi (- m)" by simp
  have "fin_le a b \<longleftrightarrow> (of_int (scaled m a) :: rat) \<le> of_int (scaled m b)"
    by (simp add: fin_le_def m_def Let_def)
  also have "\<dots> \<longleftrightarrow> dec_value a * 10 powi (- m) \<le> dec_value b * 10 powi (- m)"
    by (simp add: scaled_value m_def)
  also have "\<dots> \<longleftrightarrow> dec_value a \<le> dec_value b"
    using p by (simp only: mult_le_cancel_right_pos)
  finally show ?thesis .
qed

lemma fin_less_value: "fin_less a b \<longleftrightarrow> dec_value a < dec_value b"
proof -
  define m where "m = min (expo a) (expo b)"
  have p: "(0::rat) < 10 powi (- m)" by simp
  have "fin_less a b \<longleftrightarrow> (of_int (scaled m a) :: rat) < of_int (scaled m b)"
    by (simp add: fin_less_def m_def Let_def)
  also have "\<dots> \<longleftrightarrow> dec_value a * 10 powi (- m) < dec_value b * 10 powi (- m)"
    by (simp add: scaled_value m_def)
  also have "\<dots> \<longleftrightarrow> dec_value a < dec_value b"
    using p by (simp only: mult_less_cancel_right_pos)
  finally show ?thesis .
qed


lemma rescale_sel [simp]:
  "neg (rescale_half_up d) = neg d" "expo (rescale_half_up d) = - 2"
  by (simp_all add: rescale_half_up_def Let_def)

lemma rescale_zero: "coef d = 0 \<Longrightarrow> rescale_half_up d = Fin (neg d) 0 (- 2)"
  by (simp add: rescale_half_up_def Let_def)

text \<open>What the bound \<open>le=1000000\<close> says about coefficient and exponent.\<close>

lemma le_million:
  assumes "\<not> neg d" and "fin_le d (Fin False 1000000 0)"
  shows "\<exists>a b. int a - int b = expo d \<and> (expo d < 0 \<longrightarrow> a = 0) \<and> (0 \<le> expo d \<longrightarrow> b = 0) \<and>
          coef d * 10 ^ a \<le> 1000000 * 10 ^ b"
proof -
  define m where "m = min (expo d) 0"
  define a b where "a = nat (expo d - m)" and "b = nat (- m)"
  have "int (coef d) * 10 ^ a \<le> 1000000 * 10 ^ b"
    using assms by (simp add: fin_le_def scaled_def Let_def m_def a_def b_def)
  then have "int (coef d * 10 ^ a) \<le> int (1000000 * 10 ^ b)" by simp
  then have "coef d * 10 ^ a \<le> 1000000 * 10 ^ b" by (simp only: of_nat_le_iff)
  moreover have "int a - int b = expo d" "expo d < 0 \<longrightarrow> a = 0" "0 \<le> expo d \<longrightarrow> b = 0"
    by (simp_all add: a_def b_def m_def min_def)
  ultimately show ?thesis by blast
qed

lemma adjusted_le_million:
  assumes "\<not> neg d" and "0 < coef d" and "fin_le d (Fin False 1000000 0)"
  shows "adjusted d \<le> 6"
proof -
  from le_million [OF assms(1,3)] obtain a b where
    ab: "int a - int b = expo d" and le: "coef d * 10 ^ a \<le> 1000000 * 10 ^ b" by blast
  have "(10::nat) ^ (ndigits (coef d) - 1) * 10 ^ a \<le> coef d * 10 ^ a"
    by (rule mult_le_mono1) (rule ndigits_lower [OF assms(2)])
  from le_trans [OF this le]
  have "(10::nat) ^ (ndigits (coef d) - 1) * 10 ^ a \<le> 10 ^ 6 * 10 ^ b" by simp
  then have "(10::nat) ^ (ndigits (coef d) - 1 + a) \<le> 10 ^ (6 + b)"
    by (simp only: power_add)
  then have "ndigits (coef d) - 1 + a \<le> 6 + b"
    using power_le_imp_le_exp [of "10::nat" "ndigits (coef d) - 1 + a" "6 + b"] by simp
  then show ?thesis using ab by (simp add: adjusted_def)
qed

lemma coef_rescale_le_million:
  assumes "\<not> neg d" and "fin_le d (Fin False 1000000 0)"
  shows "coef (rescale_half_up d) \<le> 100000000"
proof -
  from le_million [OF assms] obtain a b where
    ab: "int a - int b = expo d" and a0: "expo d < 0 \<longrightarrow> a = 0" and b0: "0 \<le> expo d \<longrightarrow> b = 0"
    and le: "coef d * 10 ^ a \<le> 1000000 * 10 ^ b" by blast
  show ?thesis
  proof (cases "- 2 \<le> expo d")
    case True
    then have k: "nat (expo d + 2) + b = a + 2" using ab a0 b0 by (cases "expo d < 0") auto
    have "coef d * 10 ^ nat (expo d + 2) * 10 ^ b = coef d * 10 ^ a * 100"
      using k by (simp add: power_add [symmetric] mult.assoc del: power_add)
    also have "\<dots> \<le> 1000000 * 10 ^ b * 100" using le by simp
    finally have "coef d * 10 ^ nat (expo d + 2) * 10 ^ b \<le> 100000000 * 10 ^ b" by simp
    then have "coef d * 10 ^ nat (expo d + 2) \<le> 100000000" by simp
    then show ?thesis using True by (simp add: rescale_half_up_def)
  next
    case False
    define k where "k = nat (- 2 - expo d)"
    define p :: nat where "p = 10 ^ k"
    have p: "0 < p" by (simp add: p_def)
    from False ab a0 have "a = 0" "b = k + 2" by (simp_all add: k_def)
    with le have c: "coef d \<le> 100000000 * p" by (simp add: p_def)
    have q: "coef d div p * p \<le> coef d" by simp
    have "coef d div p \<le> 100000000"
      using c p by (metis div_le_mono nonzero_mult_div_cancel_right less_numeral_extra(3))
    moreover have "p \<le> 2 * (coef d mod p) \<Longrightarrow> coef d div p < 100000000"
    proof (rule ccontr)
      assume h: "p \<le> 2 * (coef d mod p)" and "\<not> coef d div p < 100000000"
      then have "100000000 * p \<le> coef d div p * p" by simp
      moreover have "coef d div p * p + coef d mod p = coef d" by simp
      moreover have "0 < coef d mod p" using h p by simp
      ultimately show False using c by linarith
    qed
    ultimately show ?thesis
      using False by (auto simp: rescale_half_up_def Let_def k_def p_def)
  qed
qed

lemma quantize_le_million:
  assumes "\<not> neg d" and "0 < coef d" and "fin_le d (Fin False 1000000 0)"
  shows "quantize (Finite d) = Some (QFinite (rescale_half_up d))"
proof -
  have a: "adjusted d \<le> 6" by (rule adjusted_le_million [OF assms])
  have "coef (rescale_half_up d) < 10 ^ 9"
    using coef_rescale_le_million [OF assms(1,3)] by simp
  then have n: "ndigits (coef (rescale_half_up d)) \<le> 9" by (rule ndigits_le) simp
  then have "adjusted (rescale_half_up d) \<le> 6" by (simp add: adjusted_def)
  then show ?thesis
    using a n assms(2) by (simp add: quantize_def prec_def Emax_def Let_def)
qed

lemma field_precio_Finite:
  "field_precio (Finite d) =
     (if neg d \<or> coef d = 0 \<or> \<not> fin_le d (Fin False 1000000 0) \<or> coef (rescale_half_up d) = 0
      then Inl ValidationError else Inr (rescale_half_up d))"
proof (cases "neg d \<or> coef d = 0 \<or> \<not> fin_le d (Fin False 1000000 0)")
  case True
  then show ?thesis by (auto simp: field_precio_def fin_less_zero)
next
  case False
  then have "quantize (Finite d) = Some (QFinite (rescale_half_up d))"
    using quantize_le_million by simp
  then show ?thesis
    using False by (simp add: field_precio_def validar_precio_def fin_less_zero fin_le_zero)
qed

lemma field_precio_valid: "field_precio v = Inr a \<Longrightarrow> valid_precio a"
proof (cases v)
  case (Finite d)
  assume "field_precio v = Inr a"
  then show ?thesis
    using Finite coef_rescale_le_million [of d]
    by (auto simp: field_precio_Finite valid_precio_def split: if_splits)
qed (simp_all add: field_precio_def)

lemma le_million_valid: "valid_precio a \<Longrightarrow> fin_le a (Fin False 1000000 0)"
  by (cases a) (simp add: valid_precio_def fin_le_def scaled_def Let_def)

lemma rescale_valid: "valid_precio a \<Longrightarrow> rescale_half_up a = a"
  by (cases a) (simp add: valid_precio_def rescale_half_up_def)

lemma field_precio_idem: "valid_precio a \<Longrightarrow> field_precio (Finite a) = Inr a"
  using le_million_valid [of a] rescale_valid [of a]
  by (simp add: field_precio_Finite) (simp add: valid_precio_def)


lemma abs_dec_value: "\<bar>dec_value d\<bar> = of_nat (coef d) * 10 powi expo d"
  by (simp add: dec_value_def abs_mult)

lemma sgn_dec_value:
  "0 < coef d \<Longrightarrow> sgn (dec_value d) = (if neg d then - 1 else 1)"
  by (simp add: dec_value_def sgn_mult)

lemma cents_of_coef:
  "dec_value (Fin s n (- 2)) = (if s then - 1 else 1) * of_nat n / 100"
  by (simp add: dec_value_def power_int_minus_divide)

lemma floor_half_up_pad:
  assumes "- 2 \<le> expo d"
  shows "\<lfloor>\<bar>dec_value d\<bar> * 100 + 1 / 2\<rfloor> = int (coef d * 10 ^ nat (expo d + 2))"
proof -
  have "(10::rat) powi expo d * 100 = 10 powi (expo d + 2)"
    using power_int_add [of "10::rat" "expo d" 2] by simp
  also have "\<dots> = 10 ^ nat (expo d + 2)" using assms by (simp add: power_int_def)
  finally have "\<bar>dec_value d\<bar> * 100 = of_int (int (coef d * 10 ^ nat (expo d + 2)))"
    by (simp add: abs_dec_value mult.assoc)
  then have "\<lfloor>\<bar>dec_value d\<bar> * 100 + 1 / 2\<rfloor>
      = \<lfloor>of_int (int (coef d * 10 ^ nat (expo d + 2))) + (1 / 2 :: rat)\<rfloor>" by simp
  also have "\<dots> = int (coef d * 10 ^ nat (expo d + 2))"
    by (rule floor_unique) simp_all
  finally show ?thesis .
qed

lemma floor_half_up_cut:
  assumes "\<not> - 2 \<le> expo d"
  shows "\<lfloor>\<bar>dec_value d\<bar> * 100 + 1 / 2\<rfloor> =
    int (coef d div 10 ^ nat (- 2 - expo d) +
      (if 10 ^ nat (- 2 - expo d) \<le> 2 * (coef d mod 10 ^ nat (- 2 - expo d)) then 1 else 0))"
proof -
  define p :: nat where "p = 10 ^ nat (- 2 - expo d)"
  have p: "0 < p" by (simp add: p_def)
  have "(10::rat) powi expo d * 100 = 10 powi (expo d + 2)"
    using power_int_add [of "10::rat" "expo d" 2] by simp
  also have "\<dots> = 10 powi (- int (nat (- 2 - expo d)))" using assms by simp
  also have "\<dots> = 1 / of_nat p"
    by (simp only: power_int_minus_divide power_int_of_nat p_def of_nat_power of_nat_numeral)
  finally have "\<bar>dec_value d\<bar> * 100 = of_nat (coef d) / of_nat p"
    by (simp add: abs_dec_value mult.assoc)
  then have "\<bar>dec_value d\<bar> * 100 + 1 / 2 = (of_nat (coef d) :: rat) / of_nat p + 1 / 2"
    by simp
  also have "\<dots> = (of_nat (coef d) * 2 + 1 * of_nat p) / (of_nat p * 2)"
    using p by (intro add_frac_eq) simp_all
  also have "\<dots> = (of_nat (2 * coef d + p) :: rat) / of_nat (2 * p)"
    by (simp add: mult.commute)
  finally have "\<bar>dec_value d\<bar> * 100 + 1 / 2 = (of_nat (2 * coef d + p) :: rat) / of_nat (2 * p)" .
  then have "\<lfloor>\<bar>dec_value d\<bar> * 100 + 1 / 2\<rfloor> = int ((2 * coef d + p) div (2 * p))"
    by (simp only: floor_divide_of_nat_eq)
  then show ?thesis using round_div [OF p, of "coef d"] by (simp add: p_def)
qed

lemma rescale_value: "dec_value (rescale_half_up d) = round_half_up_cents (dec_value d)"
proof (cases "coef d = 0")
  case True
  then show ?thesis
    by (simp add: rescale_zero round_half_up_cents_def dec_value_def)
next
  case False
  then have s: "sgn (dec_value d) = (if neg d then - 1 else 1)"
    using sgn_dec_value by simp
  show ?thesis
  proof (cases "- 2 \<le> expo d")
    case True
    have "rescale_half_up d = Fin (neg d) (coef d * 10 ^ nat (expo d + 2)) (- 2)"
      using True by (simp add: rescale_half_up_def)
    then show ?thesis
      unfolding round_half_up_cents_def floor_half_up_pad [OF True] s
      by (simp only: cents_of_coef of_int_of_nat_eq times_divide_eq_right)
  next
    case F: False
    have "rescale_half_up d = Fin (neg d) (coef d div 10 ^ nat (- 2 - expo d) +
      (if 10 ^ nat (- 2 - expo d) \<le> 2 * (coef d mod 10 ^ nat (- 2 - expo d)) then 1 else 0)) (- 2)"
      using F by (simp add: rescale_half_up_def Let_def)
    then show ?thesis
      unfolding round_half_up_cents_def floor_half_up_cut [OF F] s
      by (simp only: cents_of_coef of_int_of_nat_eq times_divide_eq_right)
  qed
qed

lemma dec_value_million: "dec_value (Fin False 1000000 0) = 1000000"
  by (simp add: dec_value_def)

lemma pow10_rat_pos: "\<not> (10::rat) powi e < 0"
  by (simp add: not_less)

lemma dec_value_pos: "0 < dec_value d \<longleftrightarrow> \<not> neg d \<and> 0 < coef d"
  using pow10_rat_pos [of "expo d"]
  by (auto simp: dec_value_def zero_less_mult_iff mult_less_0_iff)

lemma round_nonpos:
  "round_half_up_cents (dec_value d) \<le> 0 \<longleftrightarrow> neg d \<or> coef (rescale_half_up d) = 0"
proof -
  have "round_half_up_cents (dec_value d) \<le> 0 \<longleftrightarrow> \<not> 0 < dec_value (rescale_half_up d)"
    by (simp add: rescale_value not_less)
  then show ?thesis by (simp add: dec_value_pos)
qed

text \<open>
  Claim C3: a price that is not a finite decimal is rejected; a price above 1,000,000 is
  rejected on the value received, before it is rounded (1000000.004 is rejected, though
  it rounds to 1000000.00); any other price is rounded half up to two fractional digits,
  and rejected when the rounded value is at most 0.
\<close>

theorem C3_field_precio:
  "field_precio v =
     (case v of
        Finite d \<Rightarrow>
          if 1000000 < dec_value d then Inl ValidationError
          else if round_half_up_cents (dec_value d) \<le> 0 then Inl ValidationError
          else Inr (rescale_half_up d)
      | _ \<Rightarrow> Inl ValidationError) \<and>
   dec_value (rescale_half_up d) = round_half_up_cents (dec_value d) \<and>
   expo (rescale_half_up d) = - 2 \<and>
   field_precio (Finite (Fin False 1000000004 (- 3))) = Inl ValidationError \<and>
   round_half_up_cents (dec_value (Fin False 1000000004 (- 3))) = 1000000"
proof -
  have a: "field_precio v =
     (case v of
        Finite d \<Rightarrow>
          if 1000000 < dec_value d then Inl ValidationError
          else if round_half_up_cents (dec_value d) \<le> 0 then Inl ValidationError
          else Inr (rescale_half_up d)
      | _ \<Rightarrow> Inl ValidationError)"
  proof (cases v)
    case (Finite x)
    have "coef x = 0 \<Longrightarrow> coef (rescale_half_up x) = 0" by (simp add: rescale_zero)
    then show ?thesis
      unfolding Finite
      by (auto simp: field_precio_Finite round_nonpos fin_le_value dec_value_million not_le)
  qed (simp_all add: field_precio_def)
  have b: "field_precio (Finite (Fin False 1000000004 (- 3))) = Inl ValidationError"
    by (simp add: field_precio_Finite fin_le_def scaled_def)
  have "rescale_half_up (Fin False 1000000004 (- 3)) = Fin False 100000000 (- 2)"
    by (simp add: rescale_half_up_def)
  then have "round_half_up_cents (dec_value (Fin False 1000000004 (- 3)))
      = dec_value (Fin False 100000000 (- 2))"
    using rescale_value [of "Fin False 1000000004 (- 3)"] by simp
  then have c: "round_half_up_cents (dec_value (Fin False 1000000004 (- 3))) = 1000000"
    by (simp add: cents_of_coef)
  show ?thesis using a b c by (simp add: rescale_value)
qed

theorem C3_field_precio_witness:
  "field_precio (Finite (Fin False 1995 (- 3))) = Inr (Fin False 200 (- 2)) \<and>
   field_precio (Finite (Fin False 4 (- 3))) = Inl ValidationError \<and>
   field_precio (Infinity False) = Inl ValidationError \<and>
   field_precio NaN = Inl ValidationError"
proof -
  have r1: "rescale_half_up (Fin False 1995 (- 3)) = Fin False 200 (- 2)"
    and r2: "rescale_half_up (Fin False 4 (- 3)) = Fin False 0 (- 2)"
    by (simp_all add: rescale_half_up_def)
  have v1: "dec_value (Fin False 1995 (- 3)) \<le> 1000000"
    and v2: "dec_value (Fin False 4 (- 3)) \<le> 1000000"
    by (simp_all add: dec_value_def power_int_minus_divide)
  have p1: "\<not> round_half_up_cents (dec_value (Fin False 1995 (- 3))) \<le> 0"
    and p2: "round_half_up_cents (dec_value (Fin False 4 (- 3))) \<le> 0"
    by (simp_all add: round_nonpos r1 r2)
  show ?thesis
    using C3_field_precio [of "Finite (Fin False 1995 (- 3))" "Fin False 1995 (- 3)"]
      C3_field_precio [of "Finite (Fin False 4 (- 3))" "Fin False 4 (- 3)"]
      C3_field_precio [of "Infinity False" "Fin False 0 0"]
      C3_field_precio [of NaN "Fin False 0 0"] r1 v1 v2 p1 p2
    by simp
qed

text \<open>
  Claim C4: a price accepted by validation has exactly two fractional digits and is the
  exact decimal input rounded half up; validating it again, as is done when the record
  to store is built, returns it unchanged.  The exact input 2.005 gives 2.01.
\<close>

theorem C4_price_quantization:
  "(field_precio v = Inr q \<longrightarrow>
      expo q = - 2 \<and> field_precio (Finite q) = Inr q \<and>
      (\<exists>d. v = Finite d \<and> dec_value q = round_half_up_cents (dec_value d))) \<and>
   field_precio (Finite (Fin False 2005 (- 3))) = Inr (Fin False 201 (- 2))"
proof -
  have "field_precio (Finite (Fin False 2005 (- 3))) = Inr (Fin False 201 (- 2))"
    by (simp add: field_precio_Finite rescale_half_up_def fin_le_def scaled_def)
  moreover have "expo q = - 2 \<and> field_precio (Finite q) = Inr q \<and>
      (\<exists>d. v = Finite d \<and> dec_value q = round_half_up_cents (dec_value d))"
    if h: "field_precio v = Inr q"
  proof (cases v)
    case (Finite x)
    with h have "q = rescale_half_up x"
      by (simp add: field_precio_Finite split: if_splits)
    then show ?thesis
      using Finite field_precio_idem [OF field_precio_valid [OF h]]
      by (simp add: rescale_value)
  qed (use h in \<open>simp_all add: field_precio_def\<close>)
  ultimately show ?thesis by blast
qed

theorem C4_price_quantization_witness:
  "expo (Fin False 1250 (- 2)) = - 2 \<and>
   field_precio (Finite (Fin False 1250 (- 2))) = Inr (Fin False 1250 (- 2)) \<and>
   (\<exists>d. Finite (Fin False 125 (- 1)) = Finite d \<and>
      dec_value (Fin False 1250 (- 2)) = round_half_up_cents (dec_value d))"
proof -
  have "field_precio (Finite (Fin False 125 (- 1))) = Inr (Fin False 1250 (- 2))"
    by (simp add: field_precio_Finite rescale_half_up_def fin_le_def scaled_def)
  with C4_price_quantization [of "Finite (Fin False 125 (- 1))" "Fin False 1250 (- 2)"]
  show ?thesis by blast
qed

section \<open>Properties of the categories field\<close>

lemma categorias_loop_eq:
  "categorias_loop U l v cs =
     (if \<exists>c\<in>set cs. norm_categoria U c \<notin> CATEGORIAS_PERMITIDAS then Inl ValidationError
      else Inr (l @ dedup_first (filter (\<lambda>x. x \<notin> v) (map (norm_categoria U) cs))))"
proof (induction cs arbitrary: l v)
  case Nil
  then show ?case by simp
next
  case (Cons c cs)
  have f: "filter (\<lambda>x. x \<noteq> a \<and> x \<notin> v) xs = filter (\<lambda>x. x \<notin> v \<and> x \<noteq> a) xs"
    for a :: pystr and xs
    by (rule filter_cong) auto
  have e: "[] \<notin> CATEGORIAS_PERMITIDAS"
    by (simp add: CATEGORIAS_PERMITIDAS_def str_def)
  show ?case
  proof (cases "norm_categoria U c \<in> CATEGORIAS_PERMITIDAS")
    case False
    then show ?thesis by (simp add: norm_categoria_def Let_def)
  next
    case True
    then have ne: "norm_categoria U c \<noteq> []" using e by auto
    show ?thesis
    proof (cases "norm_categoria U c \<in> v")
      case True
      then show ?thesis
        using \<open>norm_categoria U c \<in> CATEGORIAS_PERMITIDAS\<close> ne Cons.IH [of l v]
        by (simp add: norm_categoria_def [symmetric] Let_def)
    next
      case False
      then show ?thesis
        using \<open>norm_categoria U c \<in> CATEGORIAS_PERMITIDAS\<close> ne
          Cons.IH [of "l @ [norm_categoria U c]" "insert (norm_categoria U c) v"]
        by (simp add: norm_categoria_def [symmetric] Let_def f)
    qed
  qed
qed

lemma set_dedup_first: "set (dedup_first xs) = set xs"
  by (induction xs rule: dedup_first.induct) auto

lemma distinct_dedup_first: "distinct (dedup_first xs)"
  by (induction xs rule: dedup_first.induct) (auto simp: set_dedup_first)

lemma length_dedup_first: "length (dedup_first xs) \<le> length xs"
proof (induction xs rule: dedup_first.induct)
  case 1
  then show ?case by simp
next
  case (2 x xs)
  have "length (filter (\<lambda>y. y \<noteq> x) xs) \<le> length xs" by simp
  with 2 have "length (dedup_first (filter (\<lambda>y. y \<noteq> x) xs)) \<le> length xs"
    by (rule le_trans)
  then show ?case by simp
qed

lemma dedup_first_distinct: "distinct xs \<Longrightarrow> dedup_first xs = xs"
proof (induction xs)
  case Nil
  then show ?case by simp
next
  case (Cons x xs)
  then have "filter (\<lambda>y. y \<noteq> x) xs = xs" by (auto simp: filter_id_conv)
  with Cons show ?case by simp
qed

lemma dedup_first_Nil: "dedup_first xs = [] \<longleftrightarrow> xs = []"
  by (cases xs) simp_all

lemmas cat_eval = norm_categoria_def strip_accents_def normalize_NFKD_def combining_def
  py_lower_def is_ascii_def ascii_lower_def py_split_def py_strip_def isspace_def str_def

lemma norm_permitida: "x \<in> CATEGORIAS_PERMITIDAS \<Longrightarrow> norm_categoria U x = x"
  unfolding CATEGORIAS_PERMITIDAS_def by (auto simp: cat_eval)

lemma field_categorias_eq:
  "field_categorias U vs =
     (if vs = [] \<or> 10 < length vs then Inl ValidationError
      else if \<exists>c\<in>set vs. norm_categoria U c \<notin> CATEGORIAS_PERMITIDAS then Inl ValidationError
      else Inr (dedup_first (map (norm_categoria U) vs)))"
proof -
  have "length vs < 1 \<longleftrightarrow> vs = []" by (cases vs) simp_all
  then show ?thesis
    by (simp add: field_categorias_def validar_categorias_def categorias_loop_eq)
qed

lemma field_categorias_valid:
  assumes "field_categorias U vs = Inr cs"
  shows "valid_categorias cs"
proof -
  from assms have vs: "vs \<noteq> []" "length vs \<le> 10"
    and ok: "\<forall>c\<in>set vs. norm_categoria U c \<in> CATEGORIAS_PERMITIDAS"
    and cs: "cs = dedup_first (map (norm_categoria U) vs)"
    by (auto simp: field_categorias_eq split: if_splits)
  have "length cs \<le> length vs"
    using length_dedup_first [of "map (norm_categoria U) vs"] by (simp add: cs)
  then have "length cs \<le> 10" using vs by simp
  moreover have "cs \<noteq> []" using vs by (simp add: cs dedup_first_Nil)
  moreover have "set cs \<subseteq> CATEGORIAS_PERMITIDAS"
    using ok by (auto simp: cs set_dedup_first)
  ultimately show ?thesis by (simp add: valid_categorias_def cs distinct_dedup_first)
qed

lemma field_categorias_idem:
  assumes "valid_categorias cs"
  shows "field_categorias U cs = Inr cs"
proof -
  have "map (norm_categoria U) cs = cs"
    using assms by (intro map_idI norm_permitida) (auto simp: valid_categorias_def)
  then show ?thesis
    using assms norm_permitida [of _ U]
    by (auto simp: field_categorias_eq valid_categorias_def dedup_first_distinct)
qed

text \<open>
  Claim C5: an empty list and a list of more than 10 entries are rejected; each entry is
  normalized (trimmed, lower-cased, white space collapsed, accents stripped); the list is
  rejected when a normalized entry is not an allowed category; otherwise the result is the
  list of normalized entries without duplicates, each value at its first occurrence,
  in the original order.  The list Fruta, FRUTA (with a trailing space), verdura gives
  fruta, verdura.
\<close>

theorem C5_field_categorias:
  "field_categorias U vs =
     (if vs = [] \<or> 10 < length vs then Inl ValidationError
      else if \<exists>c\<in>set vs. norm_categoria U c \<notin> CATEGORIAS_PERMITIDAS then Inl ValidationError
      else Inr (dedup_first (map (norm_categoria U) vs))) \<and>
   distinct (dedup_first xs) \<and> set (dedup_first xs) = set xs \<and>
   field_categorias U [str ''Fruta'', str ''FRUTA '', str ''verdura''] =
     Inr [str ''fruta'', str ''verdura'']"
proof -
  have n: "norm_categoria U (str ''Fruta'') = str ''fruta''"
    "norm_categoria U (str ''FRUTA '') = str ''fruta''"
    "norm_categoria U (str ''verdura'') = str ''verdura''"
    by (simp_all add: cat_eval)
  have p: "str ''fruta'' \<in> CATEGORIAS_PERMITIDAS" "str ''verdura'' \<in> CATEGORIAS_PERMITIDAS"
    by (simp_all add: CATEGORIAS_PERMITIDAS_def)
  have d: "str ''verdura'' \<noteq> str ''fruta''" by (simp add: str_def)
  have "field_categorias U [str ''Fruta'', str ''FRUTA '', str ''verdura''] =
     Inr [str ''fruta'', str ''verdura'']"
    by (simp add: field_categorias_eq n p d)
  then show ?thesis
    by (simp add: field_categorias_eq distinct_dedup_first set_dedup_first)
qed

text \<open>The first entry below is \<open>lacteo\<close> with a capital L and with U+00E1, the
  accented a, as its second letter.\<close>

theorem C5_field_categorias_witness:
  "field_categorias ucd_es [[76, 225, 99, 116, 101, 111], str '' bebida'', str ''lacteo'']
     = Inr [str ''lacteo'', str ''bebida''] \<and>
   field_categorias ucd_es [str ''fruta'', str ''pan''] = Inl ValidationError \<and>
   field_categorias ucd_es [] = Inl ValidationError"
proof -
  have n: "norm_categoria ucd_es ([76, 225, 99, 116, 101, 111]) = str ''lacteo''"
    "norm_categoria ucd_es (str '' bebida'') = str ''bebida''"
    "norm_categoria ucd_es (str ''lacteo'') = str ''lacteo''"
    "norm_categoria ucd_es (str ''fruta'') = str ''fruta''"
    "norm_categoria ucd_es (str ''pan'') = str ''pan''"
    by (simp_all add: cat_eval ucd_es_def latin1_lower_def es_nfkd_def)
  have p: "str ''lacteo'' \<in> CATEGORIAS_PERMITIDAS" "str ''bebida'' \<in> CATEGORIAS_PERMITIDAS"
    "str ''fruta'' \<in> CATEGORIAS_PERMITIDAS" "str ''pan'' \<notin> CATEGORIAS_PERMITIDAS"
    by (simp_all add: CATEGORIAS_PERMITIDAS_def str_def)
  have d: "str ''bebida'' \<noteq> str ''lacteo''" by (simp add: str_def)
  show ?thesis
    using C5_field_categorias [of ucd_es
        "[[76, 225, 99, 116, 101, 111], str '' bebida'', str ''lacteo'']" "[]::nat list"]
      C5_field_categorias [of ucd_es "[str ''fruta'', str ''pan'']" "[]::nat list"]
      C5_field_categorias [of ucd_es "[]" "[]::nat list"]
    by (simp add: n p d)
qed

section \<open>Properties of the listing\<close>

lemma py_slice_page:
  assumes "0 \<le> offset" and "0 \<le> limit"
  shows "py_slice xs offset (offset + limit) = take (nat limit) (drop (nat offset) xs)"
proof (cases "length xs \<le> nat offset")
  case True
  then show ?thesis using assms by (simp add: py_slice_def slice_index_def Let_def)
next
  case False
  then have lo: "slice_index (length xs) offset = nat offset"
    using assms by (simp add: slice_index_def)
  have hi: "slice_index (length xs) (offset + limit) = min (nat offset + nat limit) (length xs)"
    using assms by (simp add: slice_index_def nat_add_distrib)
  show ?thesis
  proof (cases "nat offset + nat limit \<le> length xs")
    case True
    then show ?thesis by (simp add: py_slice_def lo hi Let_def)
  next
    case F: False
    then have "length (drop (nat offset) xs) \<le> nat limit" by simp
    then have "take (nat limit) (drop (nat offset) xs) = drop (nat offset) xs" by simp
    then show ?thesis using F by (simp add: py_slice_def lo hi Let_def)
  qed
qed

lemma filtros_sobrevive:
  "filtro_max mx (filtro_min mn (filtro_categoria U c (filtro_q U q ps)))
     = filter (sobrevive U q c mn mx) ps"
proof -
  have "filter (sobrevive U q c mn mx) ps =
      filter (\<lambda>p. case mx of None \<Rightarrow> True | Some m \<Rightarrow> fin_le (precio p) m)
       (filter (\<lambda>p. case mn of None \<Rightarrow> True | Some m \<Rightarrow> fin_le m (precio p))
         (filter (\<lambda>p. case c of None \<Rightarrow> True
              | Some s \<Rightarrow> s = [] \<or> strip_accents U (py_lower U (py_strip s)) \<in> set (categorias p))
           (filter (\<lambda>p. case q of None \<Rightarrow> True
              | Some s \<Rightarrow> s = [] \<or> py_in (strip_accents U (py_lower U (py_strip s)))
                    (strip_accents U (py_lower U (nombre p)))) ps)))"
    unfolding filter_filter sobrevive_def by (rule filter_cong) auto
  moreover have "filtro_q U q ps = filter (\<lambda>p. case q of None \<Rightarrow> True
              | Some s \<Rightarrow> s = [] \<or> py_in (strip_accents U (py_lower U (py_strip s)))
                    (strip_accents U (py_lower U (nombre p)))) ps" for ps
    by (simp add: filtro_q_def Let_def split: option.splits)
  moreover have "filtro_categoria U c ps = filter (\<lambda>p. case c of None \<Rightarrow> True
              | Some s \<Rightarrow> s = [] \<or> strip_accents U (py_lower U (py_strip s)) \<in> set (categorias p)) ps"
    for ps
    by (simp add: filtro_categoria_def Let_def split: option.splits)
  moreover have "filtro_min mn ps
      = filter (\<lambda>p. case mn of None \<Rightarrow> True | Some m \<Rightarrow> fin_le m (precio p)) ps" for ps
    by (simp add: filtro_min_def split: option.splits)
  moreover have "filtro_max mx ps
      = filter (\<lambda>p. case mx of None \<Rightarrow> True | Some m \<Rightarrow> fin_le (precio p) m) ps" for ps
    by (simp add: filtro_max_def split: option.splits)
  ultimately show ?thesis by simp
qed

lemma listar_eq:
  assumes "0 \<le> offset" and "0 \<le> limit"
  shows "listar U repo q c mn mx limit offset =
    (take (nat limit) (drop (nat offset) (filter (sobrevive U q c mn mx) (map snd (items repo)))),
     int (length (filter (sobrevive U q c mn mx) (map snd (items repo)))))"
  by (simp add: listar_def Let_def filtros_sobrevive py_slice_page [OF assms])

section \<open>Properties of the models and of the repository\<close>

lemma ProductoCreate_valid:
  assumes "ProductoCreate U n p cs = Inr c"
  shows "valid_producto c"
proof -
  from assms obtain n0 p0 cs0 where "n = Some n0" "p = Some p0" "cs = Some cs0"
    by (auto simp: ProductoCreate_def split: option.splits)
  with assms have f: "field_nombre n0 = Inr (nombre c)" "field_precio p0 = Inr (precio c)"
    "field_categorias U cs0 = Inr (categorias c)"
    by (auto simp: ProductoCreate_def split: sum.splits)
  show ?thesis
    unfolding valid_producto_def
    using field_nombre_idem [OF f(1)] field_precio_valid [OF f(2)] field_categorias_valid [OF f(3)]
    by simp
qed

lemma ProductoCreate_idem:
  assumes "valid_producto c"
  shows "ProductoCreate U (Some (nombre c)) (Some (Finite (precio c))) (Some (categorias c))
    = Inr \<lparr>nombre = nombre c, precio = precio c, categorias = categorias c\<rparr>"
  using assms
  by (simp add: ProductoCreate_def valid_producto_def field_precio_idem field_categorias_idem)

lemma ProductoOut_valid:
  assumes "valid_producto c"
  shows "ProductoOut U i c
    = Inr \<lparr>nombre = nombre c, precio = precio c, categorias = categorias c, id' = i\<rparr>"
  by (simp add: ProductoOut_def ProductoCreate_idem [OF assms])

lemma field_nombre_opt_Some:
  "field_nombre_opt (Some s) = (case field_nombre s of Inl e \<Rightarrow> Inl e | Inr v \<Rightarrow> Inr (Some v))"
  by (simp add: field_nombre_opt_def validar_nombre_opt_def field_nombre_def validar_nombre_def
      Let_def)

lemma field_precio_opt_Some:
  "field_precio_opt (Some v) = (case field_precio v of Inl e \<Rightarrow> Inl e | Inr q \<Rightarrow> Inr (Some q))"
  by (cases v)
    (auto simp: field_precio_opt_def validar_precio_opt_def field_precio_def validar_precio_def
      split: option.splits decimal.splits quantized.splits)

lemma field_categorias_opt_Some:
  "field_categorias_opt U (Some vs)
    = (case field_categorias U vs of Inl e \<Rightarrow> Inl e | Inr cs \<Rightarrow> Inr (Some cs))"
  by (simp add: field_categorias_opt_def validar_categorias_opt_def field_categorias_def
      validar_categorias_def)

lemma crear_producto_eq:
  assumes "valid_producto c"
  shows "crear_producto U s c uid =
    (if name_to_id s (py_lower U (nombre c)) \<noteq> None then (Inl DuplicateName, s)
     else (Inr (con_id c uid),
           \<lparr>items = AList.update uid (con_id c uid) (items s),
            name_to_id = (name_to_id s)(py_lower U (nombre c) \<mapsto> uid)\<rparr>))"
  by (auto simp: crear_producto_def crear_def existe_nombre_def ProductoOut_valid [OF assms]
      con_id_def norm_name_def split: option.splits)

lemma actualizar_full_eq:
  assumes "valid_producto c"
  shows "actualizar_full U s i c =
    (case obtener s i of
       None \<Rightarrow> (Inl NotFound, s)
     | Some actual \<Rightarrow>
         if name_to_id s (py_lower U (nombre c)) \<noteq> None \<and>
            name_to_id s (py_lower U (nombre c)) \<noteq> Some i
         then (Inl DuplicateName, s)
         else (Inr (con_id c i),
               \<lparr>items = AList.update i (con_id c i) (items s),
                name_to_id = ((name_to_id s)(py_lower U (nombre actual) := None))
                               (py_lower U (nombre c) \<mapsto> i)\<rparr>))"
proof -
  have "(if m k \<noteq> None then m(k := None) else m) = m(k := None)" for m :: "pystr \<rightharpoonup> uuid" and k
    by auto
  then show ?thesis
    by (auto simp: actualizar_full_def existe_nombre_def ProductoOut_valid [OF assms]
      con_id_def norm_name_def Let_def split: option.splits)
qed

lemma con_id_sel [simp]:
  "nombre (con_id c i) = nombre c" "precio (con_id c i) = precio c"
  "categorias (con_id c i) = categorias c" "id' (con_id c i) = i"
  by (simp_all add: con_id_def)

lemma valid_con_id: "valid_producto c \<Longrightarrow> valid_producto (con_id c i)"
  by (simp add: valid_producto_def)

lemma repo_inv_init: "repo_inv U RepoProductos"
  by (simp add: repo_inv_def RepoProductos_def obtener_def)

lemma repo_invD:
  assumes "repo_inv U s"
  shows "distinct (map fst (items s))"
    and "map_of (items s) j = Some p \<Longrightarrow> id' p = j \<and> valid_producto p"
    and "name_to_id s n = Some j \<longleftrightarrow>
      (\<exists>p. map_of (items s) j = Some p \<and> py_lower U (nombre p) = n)"
  using assms unfolding repo_inv_def obtener_def norm_name_def by blast+

lemma crear_producto_inv:
  assumes inv: "repo_inv U s" and v: "valid_producto c" and fresh: "uid \<notin> fst ` set (items s)"
  shows "repo_inv U (snd (crear_producto U s c uid))"
proof (cases "name_to_id s (py_lower U (nombre c)) \<noteq> None")
  case True
  then show ?thesis using inv by (simp add: crear_producto_eq [OF v])
next
  case False
  have none: "map_of (items s) uid = None" using fresh by (simp add: map_of_eq_None_iff)
  have nodup: "py_lower U (nombre p) \<noteq> py_lower U (nombre c)"
    if "map_of (items s) j = Some p" for j p
    using repo_invD(3) [OF inv, of "py_lower U (nombre c)" j] that False by auto
  have st: "snd (crear_producto U s c uid) =
       \<lparr>items = AList.update uid (con_id c uid) (items s),
        name_to_id = (name_to_id s)(py_lower U (nombre c) \<mapsto> uid)\<rparr>"
    using False by (simp add: crear_producto_eq [OF v])
  show ?thesis
    unfolding st repo_inv_def obtener_def norm_name_def
  proof (intro conjI allI)
    show "distinct (map fst (items \<lparr>items = AList.update uid (con_id c uid) (items s),
        name_to_id = (name_to_id s)(py_lower U (nombre c) \<mapsto> uid)\<rparr>))"
      using repo_invD(1) [OF inv] by (simp add: distinct_update)
  next
    fix j p
    show "map_of (items \<lparr>items = AList.update uid (con_id c uid) (items s),
        name_to_id = (name_to_id s)(py_lower U (nombre c) \<mapsto> uid)\<rparr>) j = Some p \<longrightarrow>
          id' p = j \<and> valid_producto p"
      using repo_invD(2) [OF inv, of j p] valid_con_id [OF v, of uid]
      by (auto simp: update_conv')
  next
    fix n j
    show "(name_to_id \<lparr>items = AList.update uid (con_id c uid) (items s),
        name_to_id = (name_to_id s)(py_lower U (nombre c) \<mapsto> uid)\<rparr> n = Some j) =
        (\<exists>p. map_of (items \<lparr>items = AList.update uid (con_id c uid) (items s),
        name_to_id = (name_to_id s)(py_lower U (nombre c) \<mapsto> uid)\<rparr>) j = Some p \<and>
             py_lower U (nombre p) = n)"
    proof (cases "j = uid")
      case True
      then show ?thesis
        using repo_invD(3) [OF inv, of n uid] none by (auto simp: update_conv')
    next
      case F: False
      then show ?thesis
        using repo_invD(3) [OF inv, of n j] nodup [of j] by (auto simp: update_conv')
    qed
  qed
qed

lemma actualizar_full_inv:
  assumes inv: "repo_inv U s" and v: "valid_producto c"
  shows "repo_inv U (snd (actualizar_full U s i c))"
proof (cases "obtener s i")
  case None
  then show ?thesis using inv by (simp add: actualizar_full_eq [OF v])
next
  case (Some actual)
  show ?thesis
  proof (cases "name_to_id s (py_lower U (nombre c)) \<noteq> None \<and>
            name_to_id s (py_lower U (nombre c)) \<noteq> Some i")
    case True
    then show ?thesis using inv Some by (simp add: actualizar_full_eq [OF v])
  next
    case False
    have old: "name_to_id s (py_lower U (nombre actual)) = Some i"
      using repo_invD(3) [OF inv, of "py_lower U (nombre actual)" i] Some
      by (simp add: obtener_def)
    have nodup: "py_lower U (nombre p) \<noteq> py_lower U (nombre c)"
      if "map_of (items s) j = Some p" "j \<noteq> i" for j p
      using repo_invD(3) [OF inv, of "py_lower U (nombre c)" j] that False by auto
    have uniq: "py_lower U (nombre p) \<noteq> py_lower U (nombre actual)"
      if "map_of (items s) j = Some p" "j \<noteq> i" for j p
      using repo_invD(3) [OF inv, of "py_lower U (nombre actual)" j] that old by auto
    have st: "snd (actualizar_full U s i c) =
       \<lparr>items = AList.update i (con_id c i) (items s),
        name_to_id = ((name_to_id s)(py_lower U (nombre actual) := None))
                               (py_lower U (nombre c) \<mapsto> i)\<rparr>"
      using False Some by (auto simp: actualizar_full_eq [OF v])
    note d = repo_invD(1) [OF inv] and a = repo_invD(2) [OF inv] and b = repo_invD(3) [OF inv]
    have act: "map_of (items s) i = Some actual" using Some by (simp add: obtener_def)
    show ?thesis
      unfolding st repo_inv_def obtener_def norm_name_def
    proof (intro conjI allI)
      show "distinct (map fst (items \<lparr>items = AList.update i (con_id c i) (items s),
        name_to_id = ((name_to_id s)(py_lower U (nombre actual) := None))
                               (py_lower U (nombre c) \<mapsto> i)\<rparr>))"
        using d by (simp add: distinct_update)
    next
      fix j p
      show "map_of (items \<lparr>items = AList.update i (con_id c i) (items s),
        name_to_id = ((name_to_id s)(py_lower U (nombre actual) := None))
                               (py_lower U (nombre c) \<mapsto> i)\<rparr>) j = Some p \<longrightarrow>
          id' p = j \<and> valid_producto p"
        using a [of j p] valid_con_id [OF v, of i] by (auto simp: update_conv')
    next
      fix n j
      show "(name_to_id \<lparr>items = AList.update i (con_id c i) (items s),
        name_to_id = ((name_to_id s)(py_lower U (nombre actual) := None))
                               (py_lower U (nombre c) \<mapsto> i)\<rparr> n = Some j) =
        (\<exists>p. map_of (items \<lparr>items = AList.update i (con_id c i) (items s),
        name_to_id = ((name_to_id s)(py_lower U (nombre actual) := None))
                               (py_lower U (nombre c) \<mapsto> i)\<rparr>) j = Some p \<and>
             py_lower U (nombre p) = n)"
      proof (cases "j = i")
        case True
        then show ?thesis using b [of n i] act by (auto simp: update_conv')
      next
        case F: False
        then show ?thesis
          using b [of n j] nodup [of j] uniq [of j] by (auto simp: update_conv')
      qed
    qed
  qed
qed

lemma borrar_inv:
  assumes inv: "repo_inv U s"
  shows "repo_inv U (snd (borrar U s i))"
proof (cases "obtener s i")
  case None
  then show ?thesis using inv by (simp add: borrar_def)
next
  case (Some actual)
  have old: "name_to_id s (py_lower U (nombre actual)) = Some i"
    using repo_invD(3) [OF inv, of "py_lower U (nombre actual)" i] Some
    by (simp add: obtener_def)
  have st: "snd (borrar U s i) =
     \<lparr>items = AList.delete i (items s),
      name_to_id = (name_to_id s)(py_lower U (nombre actual) := None)\<rparr>"
    using Some old by (simp add: borrar_def Let_def norm_name_def)
  note d = repo_invD(1) [OF inv] and a = repo_invD(2) [OF inv] and b = repo_invD(3) [OF inv]
  have act: "map_of (items s) i = Some actual" using Some by (simp add: obtener_def)
  show ?thesis
    unfolding st repo_inv_def obtener_def norm_name_def
  proof (intro conjI allI)
    show "distinct (map fst (items \<lparr>items = AList.delete i (items s),
      name_to_id = (name_to_id s)(py_lower U (nombre actual) := None)\<rparr>))"
      using d by (simp add: distinct_delete)
  next
    fix j p
    show "map_of (items \<lparr>items = AList.delete i (items s),
      name_to_id = (name_to_id s)(py_lower U (nombre actual) := None)\<rparr>) j = Some p \<longrightarrow>
        id' p = j \<and> valid_producto p"
      using a [of j p] by (auto simp: delete_conv')
  next
    fix n j
    show "(name_to_id \<lparr>items = AList.delete i (items s),
      name_to_id = (name_to_id s)(py_lower U (nombre actual) := None)\<rparr> n = Some j) =
      (\<exists>p. map_of (items \<lparr>items = AList.delete i (items s),
      name_to_id = (name_to_id s)(py_lower U (nombre actual) := None)\<rparr>) j = Some p \<and>
           py_lower U (nombre p) = n)"
    proof (cases "j = i")
      case True
      then show ?thesis using b [of n i] act by (auto simp: delete_conv')
    next
      case False
      then show ?thesis
        using b [of n j] b [of "py_lower U (nombre actual)" j] old
        by (auto simp: delete_conv')
    qed
  qed
qed

lemma actualizar_partial_cases:
  "(\<exists>e. actualizar_partial U s i u = (Inl e, s)) \<or>
   (\<exists>c. valid_producto c \<and> actualizar_partial U s i u = actualizar_full U s i c)"
proof (cases "obtener s i")
  case None
  then show ?thesis by (simp add: actualizar_partial_def)
next
  case (Some actual)
  define r where "r = ProductoCreate U
      (case upd_nombre u of Unset \<Rightarrow> Some (nombre actual) | Given v \<Rightarrow> v)
      (map_option Finite (case upd_precio u of Unset \<Rightarrow> Some (precio actual) | Given v \<Rightarrow> v))
      (case upd_categorias u of Unset \<Rightarrow> Some (categorias actual) | Given v \<Rightarrow> v)"
  show ?thesis
  proof (cases r)
    case (Inl e)
    then show ?thesis using Some by (simp add: actualizar_partial_def Let_def r_def)
  next
    case (Inr c)
    then have "valid_producto c" using ProductoCreate_valid by (simp add: r_def)
    then show ?thesis
      using Some Inr by (auto simp: actualizar_partial_def Let_def r_def)
  qed
qed

lemma actualizar_partial_inv:
  assumes "repo_inv U s"
  shows "repo_inv U (snd (actualizar_partial U s i u))"
  using actualizar_partial_cases [of U s i u] actualizar_full_inv [OF assms] assms
  by auto

lemma reachable_inv: "reachable U s \<Longrightarrow> repo_inv U s"
proof (induction rule: reachable.induct)
  case init
  show ?case by (rule repo_inv_init)
next
  case (post s n p cs payload uid)
  then show ?case using ProductoCreate_valid crear_producto_inv by blast
next
  case (put s n p cs payload i)
  then show ?case
    using ProductoCreate_valid actualizar_full_inv by (simp add: reemplazar_producto_def)
next
  case (patch s n p cs payload i)
  then show ?case
    using actualizar_partial_inv by (simp add: actualizar_parcial_producto_def)
next
  case (delete s i)
  then show ?case using borrar_inv by (simp add: eliminar_producto_def)
qed

lemma inv_names_distinct:
  assumes "repo_inv U s"
  shows "distinct (map (\<lambda>p. norm_name U (nombre p)) (map snd (items s)))"
proof -
  note d = repo_invD(1) [OF assms] and b = repo_invD(3) [OF assms]
  have di: "distinct (items s)" using d by (simp add: distinct_map)
  have "inj_on (\<lambda>x. py_lower U (nombre (snd x))) (set (items s))"
  proof (rule inj_onI)
    fix x y
    assume x: "x \<in> set (items s)" and y: "y \<in> set (items s)"
      and e: "py_lower U (nombre (snd x)) = py_lower U (nombre (snd y))"
    have mx: "map_of (items s) (fst x) = Some (snd x)" using d x by simp
    have my: "map_of (items s) (fst y) = Some (snd y)" using d y by simp
    from b [of "py_lower U (nombre (snd x))" "fst x"] mx
    have "name_to_id s (py_lower U (nombre (snd x))) = Some (fst x)" by blast
    moreover from b [of "py_lower U (nombre (snd y))" "fst y"] my
    have "name_to_id s (py_lower U (nombre (snd y))) = Some (fst y)" by blast
    ultimately have "fst x = fst y" using e by simp
    with mx my have "snd x = snd y" by simp
    with \<open>fst x = fst y\<close> show "x = y" by (simp add: prod_eq_iff)
  qed
  with di have "distinct (map (\<lambda>x. py_lower U (nombre (snd x))) (items s))"
    by (simp add: distinct_map)
  then show ?thesis by (simp add: norm_name_def comp_def)
qed

lemma inv_index_map_of:
  assumes "repo_inv U s"
  shows "name_to_id s = map_of (map (\<lambda>(i, p). (norm_name U (nombre p), i)) (items s))"
proof (rule ext)
  fix n
  note d = repo_invD(1) [OF assms] and b = repo_invD(3) [OF assms]
  have nd: "distinct (map fst (map (\<lambda>(i, p). (norm_name U (nombre p), i)) (items s)))"
    using inv_names_distinct [OF assms] by (simp add: comp_def case_prod_beta)
  show "name_to_id s n = map_of (map (\<lambda>(i, p). (norm_name U (nombre p), i)) (items s)) n"
  proof (cases "name_to_id s n")
    case None
    then have h: "\<And>j p. (j, p) \<in> set (items s) \<Longrightarrow> py_lower U (nombre p) \<noteq> n"
      using b [of n] d by (metis map_of_is_SomeI option.distinct(1))
    have "n \<notin> fst ` set (map (\<lambda>(i, p). (norm_name U (nombre p), i)) (items s))"
    proof
      assume "n \<in> fst ` set (map (\<lambda>(i, p). (norm_name U (nombre p), i)) (items s))"
      then obtain j p where "(j, p) \<in> set (items s)" "n = py_lower U (nombre p)"
        by (auto simp: norm_name_def)
      with h show False by blast
    qed
    then have "map_of (map (\<lambda>(i, p). (norm_name U (nombre p), i)) (items s)) n = None"
      by (rule map_of_eq_None_iff [THEN iffD2])
    then show ?thesis using None by simp
  next
    case (Some j)
    then obtain p where "map_of (items s) j = Some p" "py_lower U (nombre p) = n"
      using b [of n j] by blast
    then have "(n, j) \<in> set (map (\<lambda>(i, p). (norm_name U (nombre p), i)) (items s))"
      using map_of_SomeD [of "items s" j p] by (force simp: norm_name_def)
    then show ?thesis using Some nd by simp
  qed
qed

lemma actualizar_full_ok:
  assumes v: "valid_producto c" and "obtener s i = Some actual"
    and "actualizar_full U s i c = (Inr nuevo, s')"
  shows "nuevo = con_id c i \<and> obtener s' i = Some nuevo \<and> map fst (items s') = map fst (items s)"
proof -
  have "i \<in> dom (map_of (items s))" using assms(2) by (auto simp: obtener_def)
  then have "i \<in> fst ` set (items s)" by (simp add: dom_map_of_conv_image_fst)
  then have keys: "map fst (AList.update i x (items s)) = map fst (items s)" for x
    by (simp add: update_keys)
  show ?thesis
    using assms(2,3) unfolding actualizar_full_eq [OF v]
    by (auto simp: obtener_def update_conv' keys split: if_splits)
qed

lemma actualizar_partial_ok:
  assumes "obtener s i = Some actual"
    and "actualizar_partial U s i u = (Inr nuevo, s')"
  shows "id' nuevo = i \<and> obtener s' i = Some nuevo \<and> map fst (items s') = map fst (items s)"
proof -
  from actualizar_partial_cases [of U s i u] assms(2)
  obtain c where c: "valid_producto c" "actualizar_full U s i c = (Inr nuevo, s')"
    by auto
  from actualizar_full_ok [OF c(1) assms(1) c(2)] show ?thesis by simp
qed

lemma producto_out_eq:
  "(p :: producto_out) = \<lparr>nombre = nombre p, precio = precio p, categorias = categorias p, id' = id' p\<rparr>"
  by (cases p) simp

lemma patch_precio:
  assumes inv: "repo_inv U s" and act: "obtener s i = Some actual"
    and upd: "ProductoUpdate U Unset (Given (Some v)) Unset = Inr u"
  shows "\<exists>q. field_precio v = Inr q \<and>
    actualizar_parcial_producto U s i u =
      (Inr (actual\<lparr>precio := q\<rparr>), s\<lparr>items := AList.update i (actual\<lparr>precio := q\<rparr>) (items s)\<rparr>)"
proof -
  from upd obtain q where q: "field_precio v = Inr q"
    and u: "u = \<lparr>upd_nombre = Unset, upd_precio = Given (Some q), upd_categorias = Unset\<rparr>"
    by (auto simp: ProductoUpdate_def on_field_def field_precio_opt_Some split: sum.splits)
  have m: "map_of (items s) i = Some actual" using act by (simp add: obtener_def)
  have va: "valid_producto actual" and ia: "id' actual = i"
    using repo_invD(2) [OF inv m] by simp_all
  have vq: "valid_precio q" using q by (rule field_precio_valid)
  define c where "c = \<lparr>nombre = nombre actual, precio = q, categorias = categorias actual\<rparr>"
  have vc: "valid_producto c" using va vq by (simp add: valid_producto_def c_def)
  have nc: "nombre c = nombre actual" by (simp add: c_def)
  have pc: "ProductoCreate U (Some (nombre actual)) (Some (Finite q)) (Some (categorias actual)) = Inr c"
    using ProductoCreate_idem [OF vc, of U] by (simp add: c_def)
  have old: "name_to_id s (py_lower U (nombre actual)) = Some i"
    using repo_invD(3) [OF inv, of "py_lower U (nombre actual)" i] m by simp
  have idx: "((name_to_id s)(py_lower U (nombre actual) := None))(py_lower U (nombre actual) \<mapsto> i)
      = name_to_id s"
    using old by (auto simp: fun_eq_iff)
  have "actual\<lparr>precio := q\<rparr> =
      \<lparr>nombre = nombre actual, precio = q, categorias = categorias actual, id' = id' actual\<rparr>"
    by (cases actual) simp
  then have ci: "con_id c i = actual\<lparr>precio := q\<rparr>"
    using ia by (simp add: con_id_def c_def)
  have "actualizar_partial U s i u = actualizar_full U s i c"
    using act pc nc by (simp add: actualizar_partial_def u Let_def)
  also have "\<dots> = (Inr (con_id c i),
      \<lparr>items = AList.update i (con_id c i) (items s), name_to_id = name_to_id s\<rparr>)"
    using act old idx nc by (simp add: actualizar_full_eq [OF vc])
  also have "\<dots> = (Inr (actual\<lparr>precio := q\<rparr>),
      s\<lparr>items := AList.update i (actual\<lparr>precio := q\<rparr>) (items s)\<rparr>)"
    by (cases s) (simp add: ci)
  finally show ?thesis using q by (simp add: actualizar_parcial_producto_def u)
qed

lemma borrar_eq_inv:
  assumes inv: "repo_inv U s" and act: "obtener s i = Some actual"
  shows "borrar U s i = (Inr (),
     \<lparr>items = AList.delete i (items s),
      name_to_id = (name_to_id s)(py_lower U (nombre actual) := None)\<rparr>)"
proof -
  have "name_to_id s (py_lower U (nombre actual)) = Some i"
    using repo_invD(3) [OF inv, of "py_lower U (nombre actual)" i] act
    by (simp add: obtener_def)
  then show ?thesis using act by (simp add: borrar_def Let_def norm_name_def)
qed

lemma recrear_tras_borrar:
  assumes inv: "repo_inv U s" and act: "obtener s i = Some actual"
    and v: "valid_producto c" and n: "nombre c = nombre actual"
  shows "fst (crear_producto U (snd (borrar U s i)) c uid) = Inr (con_id c uid)"
  by (simp add: borrar_eq_inv [OF inv act] crear_producto_eq [OF v] n)

lemma duplicado:
  assumes inv: "repo_inv U s" and m: "(i, p) \<in> set (items s)"
    and v: "valid_producto c" and n: "py_lower U (nombre c) = py_lower U (nombre p)"
  shows "crear_producto U s c uid = (Inl DuplicateName, s)"
proof -
  have "map_of (items s) i = Some p" using repo_invD(1) [OF inv] m by simp
  then have "name_to_id s (py_lower U (nombre p)) = Some i"
    using repo_invD(3) [OF inv, of "py_lower U (nombre p)" i] by blast
  then show ?thesis by (simp add: crear_producto_eq [OF v] n)
qed

section \<open>The example repositories are reachable\<close>

lemmas lower_eval = py_lower_def is_ascii_def ascii_lower_def str_def ucd_es_def latin1_lower_def

lemma ProductoCreate_manzana:
  "ProductoCreate ucd_es (Some (str '' Manzana  Roja'')) (Some (Finite (Fin False 10 0)))
     (Some [str ''Fruta'']) = Inr manzana"
proof -
  have "collapse (str '' Manzana  Roja'') = str ''Manzana Roja''" by (simp add: name_eval)
  moreover have "name_ok (str ''Manzana Roja'')" by (simp add: name_eval)
  moreover have "length (str '' Manzana  Roja'') \<le> 80" by (simp add: str_def)
  ultimately have n: "field_nombre (str '' Manzana  Roja'') = Inr (str ''Manzana Roja'')"
    by (simp add: field_nombre_eq)
  have p: "field_precio (Finite (Fin False 10 0)) = Inr (Fin False 1000 (- 2))"
    by (simp add: field_precio_Finite rescale_half_up_def fin_le_def scaled_def)
  have "norm_categoria ucd_es (str ''Fruta'') = str ''fruta''" by (simp add: cat_eval)
  moreover have "str ''fruta'' \<in> CATEGORIAS_PERMITIDAS" by (simp add: CATEGORIAS_PERMITIDAS_def)
  ultimately have c: "field_categorias ucd_es [str ''Fruta''] = Inr [str ''fruta'']"
    by (simp add: field_categorias_eq)
  show ?thesis by (simp add: ProductoCreate_def n p c manzana_def)
qed

lemma ProductoCreate_cafe_acento:
  "ProductoCreate ucd_es (Some [67, 97, 102, 233]) (Some (Finite (Fin False 55 (- 1))))
     (Some [str ''bebida'']) = Inr cafe_acento"
proof -
  have "collapse [67, 97, 102, 233] = [67, 97, 102, 233]" by (simp add: name_eval)
  moreover have "name_ok [67, 97, 102, 233]" by (simp add: name_eval)
  ultimately have n: "field_nombre [67, 97, 102, 233] = Inr [67, 97, 102, 233]"
    by (simp add: field_nombre_eq)
  have p: "field_precio (Finite (Fin False 55 (- 1))) = Inr (Fin False 550 (- 2))"
    by (simp add: field_precio_Finite rescale_half_up_def fin_le_def scaled_def)
  have "norm_categoria ucd_es (str ''bebida'') = str ''bebida''" by (simp add: cat_eval)
  moreover have "str ''bebida'' \<in> CATEGORIAS_PERMITIDAS" by (simp add: CATEGORIAS_PERMITIDAS_def)
  ultimately have c: "field_categorias ucd_es [str ''bebida''] = Inr [str ''bebida'']"
    by (simp add: field_categorias_eq)
  show ?thesis by (simp add: ProductoCreate_def n p c cafe_acento_def)
qed

lemma ProductoCreate_cafe:
  "ProductoCreate ucd_es (Some (str ''Cafe'')) (Some (Finite (Fin False 5 0)))
     (Some [str ''bebida'']) = Inr cafe"
proof -
  have "collapse (str ''Cafe'') = str ''Cafe''" by (simp add: name_eval)
  moreover have "name_ok (str ''Cafe'')" by (simp add: name_eval)
  moreover have "length (str ''Cafe'') \<le> 80" by (simp add: str_def)
  ultimately have n: "field_nombre (str ''Cafe'') = Inr (str ''Cafe'')"
    by (simp add: field_nombre_eq)
  have p: "field_precio (Finite (Fin False 5 0)) = Inr (Fin False 500 (- 2))"
    by (simp add: field_precio_Finite rescale_half_up_def fin_le_def scaled_def)
  have "norm_categoria ucd_es (str ''bebida'') = str ''bebida''" by (simp add: cat_eval)
  moreover have "str ''bebida'' \<in> CATEGORIAS_PERMITIDAS" by (simp add: CATEGORIAS_PERMITIDAS_def)
  ultimately have c: "field_categorias ucd_es [str ''bebida''] = Inr [str ''bebida'']"
    by (simp add: field_categorias_eq)
  show ?thesis by (simp add: ProductoCreate_def n p c cafe_def)
qed

lemma lower_examples:
  "py_lower ucd_es (nombre manzana) = str ''manzana roja''"
  "py_lower ucd_es (nombre cafe_acento) = [99, 97, 102, 233]"
  "py_lower ucd_es (nombre cafe) = str ''cafe''"
  by (simp_all add: lower_eval manzana_def cafe_acento_def cafe_def)

lemma crear_manzana:
  "crear_producto ucd_es RepoProductos manzana 11 = (Inr (con_id manzana 11), repo_uno)"
  by (simp add: crear_producto_eq [OF ProductoCreate_valid [OF ProductoCreate_manzana]]
      lower_examples RepoProductos_def repo_uno_def)

lemma crear_cafe_acento:
  "crear_producto ucd_es RepoProductos cafe_acento 11 =
     (Inr (con_id cafe_acento 11),
      \<lparr>items = [(11, con_id cafe_acento 11)], name_to_id = [[99, 97, 102, 233] \<mapsto> 11]\<rparr>)"
  by (simp add: crear_producto_eq [OF ProductoCreate_valid [OF ProductoCreate_cafe_acento]]
      lower_examples RepoProductos_def)

lemma crear_cafe:
  "crear_producto ucd_es
     \<lparr>items = [(11, con_id cafe_acento 11)], name_to_id = [[99, 97, 102, 233] \<mapsto> 11]\<rparr> cafe 12 =
     (Inr (con_id cafe 12), repo_cafes)"
  by (simp add: crear_producto_eq [OF ProductoCreate_valid [OF ProductoCreate_cafe]]
      lower_examples repo_cafes_def str_def)

lemma items_RepoProductos: "items RepoProductos = []"
  by (simp add: RepoProductos_def)

lemma reachable_repo_uno: "reachable ucd_es repo_uno"
  using reachable.post [OF reachable.init ProductoCreate_manzana, of 11]
  by (simp add: crear_manzana items_RepoProductos)

lemma reachable_repo_cafes: "reachable ucd_es repo_cafes"
proof -
  have "reachable ucd_es
     \<lparr>items = [(11, con_id cafe_acento 11)], name_to_id = [[99, 97, 102, 233] \<mapsto> 11]\<rparr>"
    using reachable.post [OF reachable.init ProductoCreate_cafe_acento, of 11]
    by (simp add: crear_cafe_acento items_RepoProductos)
  from reachable.post [OF this ProductoCreate_cafe, of 12]
  show ?thesis by (simp add: crear_cafe)
qed

lemma ProductoCreate_cafe_mayus:
  "ProductoCreate ucd_es (Some (str ''CAFE'')) (Some (Finite (Fin False 3 0)))
     (Some [str ''bebida'']) = Inr cafe_mayus"
proof -
  have "collapse (str ''CAFE'') = str ''CAFE''" by (simp add: name_eval)
  moreover have "name_ok (str ''CAFE'')" by (simp add: name_eval)
  moreover have "length (str ''CAFE'') \<le> 80" by (simp add: str_def)
  ultimately have n: "field_nombre (str ''CAFE'') = Inr (str ''CAFE'')"
    by (simp add: field_nombre_eq)
  have p: "field_precio (Finite (Fin False 3 0)) = Inr (Fin False 300 (- 2))"
    by (simp add: field_precio_Finite rescale_half_up_def fin_le_def scaled_def)
  have "norm_categoria ucd_es (str ''bebida'') = str ''bebida''" by (simp add: cat_eval)
  moreover have "str ''bebida'' \<in> CATEGORIAS_PERMITIDAS" by (simp add: CATEGORIAS_PERMITIDAS_def)
  ultimately have c: "field_categorias ucd_es [str ''bebida''] = Inr [str ''bebida'']"
    by (simp add: field_categorias_eq)
  show ?thesis by (simp add: ProductoCreate_def n p c cafe_mayus_def)
qed

lemma lower_cafe_mayus: "py_lower ucd_es (nombre cafe_mayus) = str ''cafe''"
  by (simp add: lower_eval cafe_mayus_def)

lemma items_repo_cafes: "items repo_cafes = [(11, con_id cafe_acento 11), (12, con_id cafe 12)]"
  by (simp add: repo_cafes_def)

lemma items_repo_uno: "items repo_uno = [(11, con_id manzana 11)]"
  by (simp add: repo_uno_def)

lemma strip_cafe_acento: "strip_accents ucd_es (nombre cafe_acento) = nombre cafe"
  by (simp add: strip_accents_def normalize_NFKD_def combining_def is_ascii_def ucd_es_def
      es_nfkd_def cafe_acento_def cafe_def str_def)

lemma crear_dos_cafes:
  "crear_producto ucd_es (snd (crear_producto ucd_es RepoProductos cafe_acento 11)) cafe 12
     = (Inr (con_id cafe 12), repo_cafes)"
  by (simp add: crear_cafe_acento crear_cafe)

lemma obtener_repo_uno: "obtener repo_uno 11 = Some (con_id manzana 11)"
  by (simp add: obtener_def repo_uno_def)

lemma ProductoUpdate_precio:
  "ProductoUpdate ucd_es Unset (Given (Some (Finite (Fin False 125 (- 1))))) Unset =
     Inr \<lparr>upd_nombre = Unset, upd_precio = Given (Some (Fin False 1250 (- 2))),
          upd_categorias = Unset\<rparr>"
proof -
  have "field_precio (Finite (Fin False 125 (- 1))) = Inr (Fin False 1250 (- 2))"
    by (simp add: field_precio_Finite rescale_half_up_def fin_le_def scaled_def)
  then show ?thesis
    by (simp add: ProductoUpdate_def on_field_def field_precio_opt_Some)
qed

section \<open>The repository claims\<close>

text \<open>
  Claim C1: in every repository reachable from the empty one through the create, replace,
  patch and delete endpoints, no two stored products have the same lower-cased name (and
  no two have the same identifier).
\<close>

theorem C1_unique_names:
  "reachable U s \<Longrightarrow>
     distinct (map fst (items s)) \<and>
     distinct (map (\<lambda>p. norm_name U (nombre p)) (map snd (items s)))"
  using reachable_inv [of U s] inv_names_distinct [of U s] repo_invD(1) [of U s] by blast

theorem C1_unique_names_witness:
  "distinct (map fst (items repo_cafes)) \<and>
   distinct (map (\<lambda>p. norm_name ucd_es (nombre p)) (map snd (items repo_cafes)))"
  by (rule C1_unique_names [OF reachable_repo_cafes])

text \<open>
  Claim C10: in every reachable repository, the name index is exactly the map that sends
  the lower-cased name of each stored product to its identifier: every entry points to a
  stored product with that lower-cased name, and the entries that point to a stored
  product are exactly one, at its lower-cased name.
\<close>

theorem C10_name_index:
  "reachable U s \<Longrightarrow>
     name_to_id s = map_of (map (\<lambda>(i, p). (norm_name U (nombre p), i)) (items s)) \<and>
     (\<forall>n i. name_to_id s n = Some i \<longrightarrow>
        (\<exists>p. (i, p) \<in> set (items s) \<and> norm_name U (nombre p) = n)) \<and>
     (\<forall>i p. (i, p) \<in> set (items s) \<longrightarrow> {n. name_to_id s n = Some i} = {norm_name U (nombre p)})"
proof -
  assume r: "reachable U s"
  then have inv: "repo_inv U s" by (rule reachable_inv)
  note d = repo_invD(1) [OF inv] and b = repo_invD(3) [OF inv]
  have 1: "name_to_id s = map_of (map (\<lambda>(i, p). (norm_name U (nombre p), i)) (items s))"
    by (rule inv_index_map_of [OF inv])
  have 2: "\<exists>p. (i, p) \<in> set (items s) \<and> norm_name U (nombre p) = n"
    if "name_to_id s n = Some i" for n i
    using b [of n i] that by (auto simp: norm_name_def dest: map_of_SomeD)
  have 3: "{n. name_to_id s n = Some i} = {norm_name U (nombre p)}"
    if "(i, p) \<in> set (items s)" for i p
  proof -
    have "map_of (items s) i = Some p" using d that by simp
    then show ?thesis using b [of _ i] by (auto simp: norm_name_def)
  qed
  show ?thesis using 1 2 3 by blast
qed

theorem C10_name_index_witness:
  "name_to_id repo_cafes =
     map_of (map (\<lambda>(i, p). (norm_name ucd_es (nombre p), i)) (items repo_cafes)) \<and>
   (\<exists>p. (12, p) \<in> set (items repo_cafes) \<and> norm_name ucd_es (nombre p) = str ''cafe'') \<and>
   {n. name_to_id repo_cafes n = Some 12} = {norm_name ucd_es (nombre (con_id cafe 12))}"
proof -
  have a: "name_to_id repo_cafes (str ''cafe'') = Some 12"
    by (simp add: repo_cafes_def str_def)
  have b: "(12, con_id cafe 12) \<in> set (items repo_cafes)" by (simp add: items_repo_cafes)
  show ?thesis
    using C10_name_index [OF reachable_repo_cafes] a b by blast
qed

text \<open>
  Claim C6: uniqueness compares lower-cased names and does not strip accents.  In every
  reachable repository, creating a product whose lower-cased name is that of a stored
  product fails with DuplicateName.  The names \<open>Caf\<close>+U+00E9 and \<open>Cafe\<close>, which differ
  in the accent only, are both created from the empty repository and are both stored in
  the reachable repository \<open>repo_cafes\<close>; creating \<open>CAFE\<close> there fails with
  DuplicateName.
\<close>

theorem C6_case_not_accents:
  "(reachable U s \<and> (i, p) \<in> set (items s) \<and> ProductoCreate U n pr cs = Inr payload \<and>
      py_lower U (nombre payload) = py_lower U (nombre p) \<longrightarrow>
      crear_producto U s payload uid = (Inl DuplicateName, s)) \<and>
   ProductoCreate ucd_es (Some [67, 97, 102, 233]) (Some (Finite (Fin False 55 (- 1))))
     (Some [str ''bebida'']) = Inr cafe_acento \<and>
   ProductoCreate ucd_es (Some (str ''Cafe'')) (Some (Finite (Fin False 5 0)))
     (Some [str ''bebida'']) = Inr cafe \<and>
   strip_accents ucd_es (nombre cafe_acento) = nombre cafe \<and>
   fst (crear_producto ucd_es RepoProductos cafe_acento 11) = Inr (con_id cafe_acento 11) \<and>
   crear_producto ucd_es (snd (crear_producto ucd_es RepoProductos cafe_acento 11)) cafe 12
     = (Inr (con_id cafe 12), repo_cafes) \<and>
   reachable ucd_es repo_cafes \<and>
   map snd (items repo_cafes) = [con_id cafe_acento 11, con_id cafe 12] \<and>
   ProductoCreate ucd_es (Some (str ''CAFE'')) (Some (Finite (Fin False 3 0)))
     (Some [str ''bebida'']) = Inr cafe_mayus \<and>
   crear_producto ucd_es repo_cafes cafe_mayus 13 = (Inl DuplicateName, repo_cafes)"
proof -
  have g: "crear_producto U s payload uid = (Inl DuplicateName, s)"
    if "reachable U s" "(i, p) \<in> set (items s)" "ProductoCreate U n pr cs = Inr payload"
      "py_lower U (nombre payload) = py_lower U (nombre p)"
    using duplicado [OF reachable_inv [OF that(1)] that(2) ProductoCreate_valid [OF that(3)] that(4)] .
  have m: "(12, con_id cafe 12) \<in> set (items repo_cafes)" by (simp add: items_repo_cafes)
  have l: "py_lower ucd_es (nombre cafe_mayus) = py_lower ucd_es (nombre (con_id cafe 12))"
    by (simp add: lower_cafe_mayus lower_examples)
  have d: "crear_producto ucd_es repo_cafes cafe_mayus 13 = (Inl DuplicateName, repo_cafes)"
    by (rule duplicado [OF reachable_inv [OF reachable_repo_cafes] m
          ProductoCreate_valid [OF ProductoCreate_cafe_mayus] l])
  show ?thesis
    using g d ProductoCreate_cafe_acento ProductoCreate_cafe ProductoCreate_cafe_mayus
      strip_cafe_acento crear_dos_cafes reachable_repo_cafes
    by (simp add: crear_cafe_acento items_repo_cafes)
qed

theorem C6_case_not_accents_witness:
  "crear_producto ucd_es repo_cafes cafe_mayus 99 = (Inl DuplicateName, repo_cafes)"
proof -
  have m: "(12, con_id cafe 12) \<in> set (items repo_cafes)" by (simp add: items_repo_cafes)
  have l: "py_lower ucd_es (nombre cafe_mayus) = py_lower ucd_es (nombre (con_id cafe 12))"
    by (simp add: lower_cafe_mayus lower_examples)
  show ?thesis
    using C6_case_not_accents [of ucd_es repo_cafes 12 "con_id cafe 12" "Some (str ''CAFE'')"
        "Some (Finite (Fin False 3 0))" "Some [str ''bebida'']" cafe_mayus 99]
      reachable_repo_cafes m l ProductoCreate_cafe_mayus
    by blast
qed

text \<open>
  Claim C7: with a limit from 1 to 100 and an offset of at least 0, a listing returns
  the slice from offset to offset + limit of the stored products that pass all filters,
  in stored order, and the number of all products that pass the filters, whatever the
  limit and the offset; the page has at most limit products.  The endpoint returns the
  same page, unless both price bounds are given and the minimum exceeds the maximum.
\<close>

theorem C7_listar:
  assumes "1 \<le> limit" and "limit \<le> 100" and "0 \<le> offset"
  shows
    "listar U repo q c mn mx limit offset =
       (take (nat limit) (drop (nat offset) (filter (sobrevive U q c mn mx) (map snd (items repo)))),
        int (length (filter (sobrevive U q c mn mx) (map snd (items repo))))) \<and>
     int (length (fst (listar U repo q c mn mx limit offset))) \<le> limit \<and>
     snd (listar U repo q c mn mx limit' offset') =
       int (length (filter (sobrevive U q c mn mx) (map snd (items repo)))) \<and>
     listar_productos U repo q c mn mx limit offset =
       (if mn \<noteq> None \<and> mx \<noteq> None \<and> fin_less (the mx) (the mn) then Inl InvalidRange
        else Inr \<lparr>page_total = int (length (filter (sobrevive U q c mn mx) (map snd (items repo)))),
                 page_items = take (nat limit) (drop (nat offset)
                   (filter (sobrevive U q c mn mx) (map snd (items repo))))\<rparr>)"
proof -
  have l: "0 \<le> limit" using assms(1) by simp
  note e = listar_eq [OF assms(3) l, of U repo q c mn mx]
  have t: "snd (listar U repo q c mn mx limit' offset') =
       int (length (filter (sobrevive U q c mn mx) (map snd (items repo))))"
    by (simp add: listar_def Let_def filtros_sobrevive)
  have n: "int (length (fst (listar U repo q c mn mx limit offset))) \<le> limit"
    using l by (simp add: e)
  have p: "listar_productos U repo q c mn mx limit offset =
       (if mn \<noteq> None \<and> mx \<noteq> None \<and> fin_less (the mx) (the mn) then Inl InvalidRange
        else Inr \<lparr>page_total = int (length (filter (sobrevive U q c mn mx) (map snd (items repo)))),
                 page_items = take (nat limit) (drop (nat offset)
                   (filter (sobrevive U q c mn mx) (map snd (items repo))))\<rparr>)"
    unfolding listar_productos_def e by simp
  show ?thesis by (intro conjI e n t p)
qed

theorem C7_listar_witness:
  "listar ucd_es repo_cafes None None None None 1 1 = ([con_id cafe 12], 2) \<and>
   listar ucd_es repo_cafes None None (Some (Fin False 525 (- 2))) None 1 0
     = ([con_id cafe_acento 11], 1)"
proof -
  have a: "filter (sobrevive ucd_es None None None None) (map snd (items repo_cafes))
      = [con_id cafe_acento 11, con_id cafe 12]"
    by (simp add: sobrevive_def items_repo_cafes)
  have b: "filter (sobrevive ucd_es None None (Some (Fin False 525 (- 2))) None)
      (map snd (items repo_cafes)) = [con_id cafe_acento 11]"
    by (simp add: sobrevive_def items_repo_cafes cafe_acento_def cafe_def fin_le_def scaled_def)
  show ?thesis
    using C7_listar [of 1 1 ucd_es repo_cafes None None None None 1 1]
      C7_listar [of 1 0 ucd_es repo_cafes None None "Some (Fin False 525 (- 2))" None 1 0]
    by (simp add: a b)
qed

text \<open>
  Claim C8: in a reachable repository, a patch that sets only the price of a stored
  product succeeds, stores the validated price and leaves the name, the categories, the
  identifier and the position of the record as they were, and every other record and the
  name index unchanged.  A replace or a patch of a stored product that succeeds returns
  and stores, under the same key, a record with the identifier that the record had.
\<close>

theorem C8_update_frame:
  "(reachable U s \<and> obtener s i = Some actual \<and>
      ProductoUpdate U Unset (Given (Some v)) Unset = Inr u \<longrightarrow>
      (\<exists>q. field_precio v = Inr q \<and>
         actualizar_parcial_producto U s i u =
           (Inr (actual\<lparr>precio := q\<rparr>),
            s\<lparr>items := AList.update i (actual\<lparr>precio := q\<rparr>) (items s)\<rparr>))) \<and>
   (reachable U s \<and> obtener s i = Some actual \<and> ProductoCreate U n p cs = Inr c \<and>
      reemplazar_producto U s i c = (Inr nuevo, s') \<longrightarrow>
      id' nuevo = id' actual \<and> obtener s' i = Some nuevo \<and>
      map fst (items s') = map fst (items s)) \<and>
   (reachable U s \<and> obtener s i = Some actual \<and> ProductoUpdate U n2 p2 cs2 = Inr u2 \<and>
      actualizar_parcial_producto U s i u2 = (Inr nuevo2, s2) \<longrightarrow>
      id' nuevo2 = id' actual \<and> obtener s2 i = Some nuevo2 \<and>
      map fst (items s2) = map fst (items s))"
proof -
  have ia: "id' actual = i" if "reachable U s" "obtener s i = Some actual"
    using repo_invD(2) [OF reachable_inv [OF that(1)], of i actual] that(2)
    by (simp add: obtener_def)
  have 1: "reachable U s \<and> obtener s i = Some actual \<and>
      ProductoUpdate U Unset (Given (Some v)) Unset = Inr u \<longrightarrow>
      (\<exists>q. field_precio v = Inr q \<and>
         actualizar_parcial_producto U s i u =
           (Inr (actual\<lparr>precio := q\<rparr>),
            s\<lparr>items := AList.update i (actual\<lparr>precio := q\<rparr>) (items s)\<rparr>))"
  proof (intro impI, elim conjE)
    assume h: "reachable U s" "obtener s i = Some actual"
      "ProductoUpdate U Unset (Given (Some v)) Unset = Inr u"
    show "\<exists>q. field_precio v = Inr q \<and>
         actualizar_parcial_producto U s i u =
           (Inr (actual\<lparr>precio := q\<rparr>),
            s\<lparr>items := AList.update i (actual\<lparr>precio := q\<rparr>) (items s)\<rparr>)"
      by (rule patch_precio [OF reachable_inv [OF h(1)] h(2,3)])
  qed
  have 2: "reachable U s \<and> obtener s i = Some actual \<and> ProductoCreate U n p cs = Inr c \<and>
      reemplazar_producto U s i c = (Inr nuevo, s') \<longrightarrow>
      id' nuevo = id' actual \<and> obtener s' i = Some nuevo \<and>
      map fst (items s') = map fst (items s)"
  proof (intro impI, elim conjE)
    assume h: "reachable U s" "obtener s i = Some actual" "ProductoCreate U n p cs = Inr c"
      "reemplazar_producto U s i c = (Inr nuevo, s')"
    from h(4) have "actualizar_full U s i c = (Inr nuevo, s')"
      by (simp add: reemplazar_producto_def)
    from actualizar_full_ok [OF ProductoCreate_valid [OF h(3)] h(2) this] ia [OF h(1,2)]
    show "id' nuevo = id' actual \<and> obtener s' i = Some nuevo \<and>
      map fst (items s') = map fst (items s)"
      by simp
  qed
  have 3: "reachable U s \<and> obtener s i = Some actual \<and> ProductoUpdate U n2 p2 cs2 = Inr u2 \<and>
      actualizar_parcial_producto U s i u2 = (Inr nuevo2, s2) \<longrightarrow>
      id' nuevo2 = id' actual \<and> obtener s2 i = Some nuevo2 \<and>
      map fst (items s2) = map fst (items s)"
  proof (intro impI, elim conjE)
    assume h: "reachable U s" "obtener s i = Some actual"
      "actualizar_parcial_producto U s i u2 = (Inr nuevo2, s2)"
    from h(3) have "actualizar_partial U s i u2 = (Inr nuevo2, s2)"
      by (simp add: actualizar_parcial_producto_def split: if_splits)
    from actualizar_partial_ok [OF h(2) this] ia [OF h(1,2)]
    show "id' nuevo2 = id' actual \<and> obtener s2 i = Some nuevo2 \<and>
      map fst (items s2) = map fst (items s)"
      by simp
  qed
  show ?thesis by (intro conjI 1 2 3)
qed

theorem C8_update_frame_witness:
  "actualizar_parcial_producto ucd_es repo_uno 11
     \<lparr>upd_nombre = Unset, upd_precio = Given (Some (Fin False 1250 (- 2))),
      upd_categorias = Unset\<rparr> =
     (Inr ((con_id manzana 11)\<lparr>precio := Fin False 1250 (- 2)\<rparr>),
      repo_uno\<lparr>items := [(11, (con_id manzana 11)\<lparr>precio := Fin False 1250 (- 2)\<rparr>)]\<rparr>) \<and>
   id' ((con_id manzana 11)\<lparr>precio := Fin False 1250 (- 2)\<rparr>) = id' (con_id manzana 11) \<and>
   nombre ((con_id manzana 11)\<lparr>precio := Fin False 1250 (- 2)\<rparr>) = nombre (con_id manzana 11) \<and>
   categorias ((con_id manzana 11)\<lparr>precio := Fin False 1250 (- 2)\<rparr>)
     = categorias (con_id manzana 11)"
proof -
  have f: "field_precio (Finite (Fin False 125 (- 1))) = Inr (Fin False 1250 (- 2))"
    by (simp add: field_precio_Finite rescale_half_up_def fin_le_def scaled_def)
  have "\<exists>q. field_precio (Finite (Fin False 125 (- 1))) = Inr q \<and>
     actualizar_parcial_producto ucd_es repo_uno 11
     \<lparr>upd_nombre = Unset, upd_precio = Given (Some (Fin False 1250 (- 2))),
      upd_categorias = Unset\<rparr> =
     (Inr ((con_id manzana 11)\<lparr>precio := q\<rparr>),
      repo_uno\<lparr>items := AList.update 11 ((con_id manzana 11)\<lparr>precio := q\<rparr>) (items repo_uno)\<rparr>)"
    by (rule C8_update_frame [THEN conjunct1, THEN mp])
      (intro conjI reachable_repo_uno obtener_repo_uno ProductoUpdate_precio)
  then obtain q where q: "field_precio (Finite (Fin False 125 (- 1))) = Inr q"
    and a: "actualizar_parcial_producto ucd_es repo_uno 11
     \<lparr>upd_nombre = Unset, upd_precio = Given (Some (Fin False 1250 (- 2))),
      upd_categorias = Unset\<rparr> =
     (Inr ((con_id manzana 11)\<lparr>precio := q\<rparr>),
      repo_uno\<lparr>items := AList.update 11 ((con_id manzana 11)\<lparr>precio := q\<rparr>) (items repo_uno)\<rparr>)"
    by (elim exE conjE)
  from q f have "q = Fin False 1250 (- 2)" by simp
  with a show ?thesis by (simp add: items_repo_uno)
qed

text \<open>
  Claim C9: deleting an absent identifier fails with NotFound and changes nothing;
  deleting a stored product removes the record, and removes the index entry of its
  lower-cased name only if that entry holds this identifier; in a reachable repository,
  creating a product with the name of the deleted one then succeeds.
\<close>

theorem C9_delete:
  "(obtener s i = None \<longrightarrow> eliminar_producto U s i = (Inl NotFound, s)) \<and>
   (obtener s i = Some actual \<longrightarrow>
      eliminar_producto U s i =
        (Inr (),
         \<lparr>items = AList.delete i (items s),
          name_to_id =
            (if name_to_id s (norm_name U (nombre actual)) = Some i
             then (name_to_id s)(norm_name U (nombre actual) := None) else name_to_id s)\<rparr>) \<and>
      obtener (snd (eliminar_producto U s i)) i = None) \<and>
   (reachable U s \<and> obtener s i = Some actual \<and> ProductoCreate U n p cs = Inr payload \<and>
      nombre payload = nombre actual \<longrightarrow>
      fst (crear_producto U (snd (eliminar_producto U s i)) payload uid)
        = Inr (con_id payload uid))"
proof (intro conjI impI)
  assume "obtener s i = None"
  then show "eliminar_producto U s i = (Inl NotFound, s)"
    by (simp add: eliminar_producto_def borrar_def)
next
  assume "obtener s i = Some actual"
  then show "eliminar_producto U s i =
        (Inr (),
         \<lparr>items = AList.delete i (items s),
          name_to_id =
            (if name_to_id s (norm_name U (nombre actual)) = Some i
             then (name_to_id s)(norm_name U (nombre actual) := None) else name_to_id s)\<rparr>)"
    by (simp add: eliminar_producto_def borrar_def Let_def)
next
  assume "obtener s i = Some actual"
  then show "obtener (snd (eliminar_producto U s i)) i = None"
    by (simp add: eliminar_producto_def borrar_def Let_def obtener_def delete_conv')
next
  assume h: "reachable U s \<and> obtener s i = Some actual \<and> ProductoCreate U n p cs = Inr payload \<and>
      nombre payload = nombre actual"
  then show "fst (crear_producto U (snd (eliminar_producto U s i)) payload uid)
        = Inr (con_id payload uid)"
    using recrear_tras_borrar [of U s i actual payload uid] reachable_inv [of U s]
      ProductoCreate_valid [of U n p cs payload]
    by (simp add: eliminar_producto_def)
qed

theorem C9_delete_witness:
  "eliminar_producto ucd_es repo_uno 99 = (Inl NotFound, repo_uno) \<and>
   eliminar_producto ucd_es repo_uno 11 = (Inr (), RepoProductos) \<and>
   fst (crear_producto ucd_es (snd (eliminar_producto ucd_es repo_uno 11)) manzana 12)
     = Inr (con_id manzana 12)"
proof -
  have a: "obtener repo_uno 99 = None" by (simp add: obtener_def repo_uno_def)
  have b: "norm_name ucd_es (nombre manzana) = str ''manzana roja''"
    by (simp add: norm_name_def lower_examples)
  have 1: "eliminar_producto ucd_es repo_uno 99 = (Inl NotFound, repo_uno)"
    by (rule C9_delete [THEN conjunct1, THEN mp]) (rule a)
  have "eliminar_producto ucd_es repo_uno 11 =
        (Inr (),
         \<lparr>items = AList.delete 11 (items repo_uno),
          name_to_id =
            (if name_to_id repo_uno (norm_name ucd_es (nombre (con_id manzana 11))) = Some 11
             then (name_to_id repo_uno)(norm_name ucd_es (nombre (con_id manzana 11)) := None)
             else name_to_id repo_uno)\<rparr>) \<and>
      obtener (snd (eliminar_producto ucd_es repo_uno 11)) 11 = None"
    by (rule C9_delete [THEN conjunct2, THEN conjunct1, THEN mp]) (rule obtener_repo_uno)
  then have 2: "eliminar_producto ucd_es repo_uno 11 = (Inr (), RepoProductos)"
    by (simp add: b repo_uno_def RepoProductos_def)
  have 3: "fst (crear_producto ucd_es (snd (eliminar_producto ucd_es repo_uno 11)) manzana 12)
     = Inr (con_id manzana 12)"
  proof (rule C9_delete [of repo_uno 11 ucd_es "con_id manzana 11"
        "Some (str '' Manzana  Roja'')" "Some (Finite (Fin False 10 0))"
        "Some [str ''Fruta'']" manzana 12, THEN conjunct2, THEN conjunct2, THEN mp])
    show "reachable ucd_es repo_uno \<and> obtener repo_uno 11 = Some (con_id manzana 11) \<and>
      ProductoCreate ucd_es (Some (str '' Manzana  Roja'')) (Some (Finite (Fin False 10 0)))
        (Some [str ''Fruta'']) = Inr manzana \<and>
      nombre manzana = nombre (con_id manzana 11)"
      using reachable_repo_uno obtener_repo_uno ProductoCreate_manzana by simp
  qed
  show ?thesis by (intro conjI 1 2 3)
qed

end
